theory Spec2Isabelle
  imports Main "HOL-Library.Sublist"
begin

section \<open>Data model (services/games/models)\<close>

text \<open>
  Go strings are modelled as \<open>string\<close> (a list of 8-bit characters). The loops below
  range over runes; the only runes they test for are the ASCII quote characters and
  the space, and every other rune is copied unchanged, so on valid UTF-8 text the
  byte-wise reading and the rune-wise reading agree.

  \<open>EmulatorType\<close> is a named string type in the source, with three constants.
\<close>

type_synonym EmulatorType = string

definition EmulatorTypeFlatpak :: EmulatorType where
  "EmulatorTypeFlatpak = ''flatpak''"

definition EmulatorTypeNative :: EmulatorType where
  "EmulatorTypeNative = ''native''"

definition EmulatorTypeAppImage :: EmulatorType where
  "EmulatorTypeAppImage = ''appimage''"

text \<open>
  \<open>models.Emulator\<close>, \<open>models.EmulatorCore\<close>, \<open>models.PlatformEmulator\<close> and
  \<open>models.InstanceEmulatorSettings\<close>, field by field. The two bookkeeping time
  stamps of \<open>Emulator\<close> (\<open>CreatedAt\<close>, \<open>UpdatedAt\<close>) are never read by the code
  modelled here and are left out. \<open>priority\<close> is the column of table
  \<open>platform_emulators\<close> that the queries order by; the Go struct has no field for it.
\<close>

record Emulator =
  emu_ID :: string
  emu_Name :: string
  emu_DisplayName :: string
  emu_Type :: EmulatorType
  emu_ExecutablePath :: string
  emu_FlatpakID :: string
  emu_CommandTemplate :: string
  emu_DefaultArgs :: string
  emu_SupportedPlatforms :: "string list"
  emu_IsAvailable :: bool

record EmulatorCore =
  core_ID :: string
  core_EmulatorID :: string
  core_CoreID :: string
  core_DisplayName :: string
  core_SupportedPlatforms :: "string list"
  core_IsAvailable :: bool

record PlatformEmulator =
  pe_ID :: string
  pe_Platform :: string
  pe_EmulatorID :: string
  pe_CoreID :: string
  pe_IsDefault :: bool
  pe_priority :: int

record InstanceEmulatorSettings =
  ies_InstanceID :: string
  ies_EmulatorID :: string
  ies_CoreID :: string
  ies_CustomArgs :: string


section \<open>Command builder (services/games/emulator/service.go)\<close>

subsection \<open>Library functions used by the builder\<close>

definition dquote :: char where
  "dquote = CHR 0x22"

definition squote :: char where
  "squote = CHR 0x27"

definition backslash :: char where
  "backslash = CHR 0x5C"

text \<open>
  \<open>strings.ReplaceAll s old new\<close>: non-overlapping occurrences of \<open>old\<close> are replaced
  from left to right. For an empty \<open>old\<close> Go inserts \<open>new\<close> before every rune and at
  the end; the builder only calls it with the non-empty placeholder literals.
\<close>

function ReplaceAll :: "string \<Rightarrow> string \<Rightarrow> string \<Rightarrow> string" where
  "ReplaceAll s old new =
     (if old = [] then new @ concat (map (\<lambda>c. c # new) s)
      else if s = [] then []
      else if prefix old s then new @ ReplaceAll (drop (length old) s) old new
      else hd s # ReplaceAll (tl s) old new)"
  by pat_completeness auto
termination
  by (relation "measure (\<lambda>(s, old, new). length s)") (auto simp: neq_Nil_conv)

declare ReplaceAll.simps [simp del]

text \<open>
  \<open>fmt.Sprintf("%q", s)\<close> is \<open>strconv.Quote\<close>: the text between double quotes, with
  the double quote and the backslash escaped by a backslash, printable ASCII copied,
  the seven named control characters written as their two-character escapes and
  every other ASCII control character as \<open>\xNN\<close>. Bytes from \<open>0x80\<close> on belong to
  multi-byte runes; they are copied, which is what \<open>Quote\<close> does for printable runes.
\<close>

definition hexdigit :: "nat \<Rightarrow> char" where
  "hexdigit n = ''0123456789abcdef'' ! (n mod 16)"

definition quoteRune :: "char \<Rightarrow> string" where
  "quoteRune c =
     (let n = of_char c :: nat in
      if c = dquote \<or> c = backslash then [backslash, c]
      else if 32 \<le> n \<and> n \<noteq> 127 then [c]
      else if n = 7 then [backslash, CHR ''a'']
      else if n = 8 then [backslash, CHR ''b'']
      else if n = 12 then [backslash, CHR ''f'']
      else if n = 10 then [backslash, CHR ''n'']
      else if n = 13 then [backslash, CHR ''r'']
      else if n = 9 then [backslash, CHR ''t'']
      else if n = 11 then [backslash, CHR ''v'']
      else [backslash, CHR ''x'', hexdigit (n div 16), hexdigit n])"

definition Quote :: "string \<Rightarrow> string" where
  "Quote s = dquote # concat (map quoteRune s) @ [dquote]"

subsection \<open>quotePathIfNeeded and parseCommandWithQuotes\<close>

definition quotePathIfNeeded :: "string \<Rightarrow> string" where
  "quotePathIfNeeded path = (if CHR '' '' \<in> set path then Quote path else path)"

text \<open>
  The loop state of \<open>parseCommandWithQuotes\<close>: the tokens so far, the token being
  built, and the quote state (\<open>quoteChar\<close> is \<open>rune(0)\<close> outside a quoted span).
\<close>

record parse_state =
  ps_args :: "string list"
  ps_currentArg :: string
  ps_inQuote :: bool
  ps_quoteChar :: char

definition parse_init :: parse_state where
  "parse_init = \<lparr>ps_args = [], ps_currentArg = [], ps_inQuote = False, ps_quoteChar = CHR 0x00\<rparr>"

definition parse_step :: "parse_state \<Rightarrow> char \<Rightarrow> parse_state" where
  "parse_step st r =
     (if r = dquote \<or> r = squote then
        (if \<not> ps_inQuote st then st\<lparr>ps_inQuote := True, ps_quoteChar := r\<rparr>
         else if r = ps_quoteChar st then st\<lparr>ps_inQuote := False, ps_quoteChar := CHR 0x00\<rparr>
         else st\<lparr>ps_currentArg := ps_currentArg st @ [r]\<rparr>)
      else if r = CHR '' '' \<and> \<not> ps_inQuote st then
        (if length (ps_currentArg st) > 0
         then st\<lparr>ps_args := ps_args st @ [ps_currentArg st], ps_currentArg := []\<rparr>
         else st)
      else st\<lparr>ps_currentArg := ps_currentArg st @ [r]\<rparr>)"

definition parse_finish :: "parse_state \<Rightarrow> string list" where
  "parse_finish st =
     (if length (ps_currentArg st) > 0 then ps_args st @ [ps_currentArg st] else ps_args st)"

definition parseCommandWithQuotes :: "string \<Rightarrow> string list" where
  "parseCommandWithQuotes cmd = parse_finish (foldl parse_step parse_init cmd)"

subsection \<open>buildFlatpakCommand, buildNativeCommand\<close>

definition buildFlatpakCommand :: "Emulator \<Rightarrow> string \<Rightarrow> string \<Rightarrow> string \<Rightarrow> string list" where
  "buildFlatpakCommand emulator coreLibPath romPath args =
     (let quotedRomPath = quotePathIfNeeded romPath;
          quotedCorePath = quotePathIfNeeded coreLibPath;
          cmd0 = emu_CommandTemplate emulator;
          cmd1 = ReplaceAll cmd0 ''{flatpak_id}'' (emu_FlatpakID emulator);
          cmd2 = ReplaceAll cmd1 ''{core_lib_path}'' quotedCorePath;
          cmd3 = ReplaceAll cmd2 ''{args}'' args;
          cmd4 = ReplaceAll cmd3 ''{rom}'' quotedRomPath
      in parseCommandWithQuotes cmd4)"

definition buildNativeCommand :: "Emulator \<Rightarrow> string \<Rightarrow> string \<Rightarrow> string list" where
  "buildNativeCommand emulator romPath args =
     (let quotedRomPath = quotePathIfNeeded romPath;
          cmd0 = emu_CommandTemplate emulator;
          cmd1 = ReplaceAll cmd0 ''{executable}'' (emu_ExecutablePath emulator);
          cmd2 = ReplaceAll cmd1 ''{args}'' args;
          cmd3 = ReplaceAll cmd2 ''{rom}'' quotedRomPath
      in parseCommandWithQuotes cmd3)"


section \<open>Persistence layer used by emulator resolution (services/games/database)\<close>

text \<open>
  The four tables the resolution queries read, each as a list of its rows. The upsert
  functions of the source write every text column from a Go string, so no column holds
  NULL and a row is the corresponding struct.
  \<open>db_fault\<close> stands for the driver: when it is \<open>Some msg\<close> every query fails with
  that error, otherwise queries only fail with \<open>sql.ErrNoRows\<close>.

  SQL leaves the order of result rows to the query plan wherever the query does not
  order them: the whole result of the default query (it has no \<open>ORDER BY\<close>), and
  the rows of equal priority in the result of the available-emulators query (no API
  of the source writes the priority column, so all rows tie). \<open>db_plan\<close> stands for
  the plan: for each of these queries it ranks the joined rows, and the query yields
  rows of lower rank first. Every order SQLite may choose is the order of some rank.
\<close>

type_synonym error = string

type_synonym joined_row = "Emulator \<times> PlatformEmulator \<times> EmulatorCore option"

datatype query = DefaultQuery bool | AvailableQuery

record GameInstance =
  gi_ID :: string
  gi_GameID :: string
  gi_Source :: string
  gi_Platform :: string
  gi_SourceID :: string
  gi_Path :: string
  gi_Filename :: string
  gi_FileHash :: string
  gi_Installed :: bool
  gi_InstallPath :: string

record DB =
  db_emulators :: "Emulator list"
  db_emulator_cores :: "EmulatorCore list"
  db_platform_emulators :: "PlatformEmulator list"
  db_instance_emulator_settings :: "InstanceEmulatorSettings list"
  db_fault :: "error option"
  db_plan :: "query \<Rightarrow> joined_row \<Rightarrow> nat"

definition ErrNoRows :: error where
  "ErrNoRows = ''sql: no rows in result set''"

text \<open>\<open>QueryRow(...).Scan\<close>: the first row of the result, \<open>ErrNoRows\<close> when there is none.\<close>

definition QueryRow :: "DB \<Rightarrow> 'a list \<Rightarrow> error + 'a" where
  "QueryRow db rows =
     (case db_fault db of
        Some e \<Rightarrow> Inl e
      | None \<Rightarrow> (case rows of [] \<Rightarrow> Inl ErrNoRows | r # _ \<Rightarrow> Inr r))"

definition GetInstanceEmulatorSettings :: "DB \<Rightarrow> string \<Rightarrow> error + InstanceEmulatorSettings" where
  "GetInstanceEmulatorSettings db instanceID =
     QueryRow db (filter (\<lambda>s. ies_InstanceID s = instanceID) (db_instance_emulator_settings db))"

definition GetEmulator :: "DB \<Rightarrow> string \<Rightarrow> error + Emulator" where
  "GetEmulator db ident = QueryRow db (filter (\<lambda>e. emu_ID e = ident) (db_emulators db))"

definition GetCore :: "DB \<Rightarrow> string \<Rightarrow> string \<Rightarrow> error + EmulatorCore" where
  "GetCore db emulatorID coreID =
     QueryRow db (filter (\<lambda>c. core_EmulatorID c = emulatorID \<and> core_CoreID c = coreID)
                    (db_emulator_cores db))"

text \<open>
  The join shared by the three platform queries:
  \<^verbatim>\<open>FROM emulators e JOIN platform_emulators pe ON e.id = pe.emulator_id
  LEFT JOIN emulator_cores c ON pe.core_id = c.core_id AND c.emulator_id = e.id\<close>,
  as the collection of its rows (the list below is one enumeration of them; the
  order in which a query yields them is given by \<open>db_plan\<close>). A mapping row without
  a matching core row yields one joined row whose core columns are NULL (\<open>None\<close>).
\<close>

definition left_join_cores :: "DB \<Rightarrow> Emulator \<Rightarrow> PlatformEmulator \<Rightarrow> joined_row list" where
  "left_join_cores db e pe =
     (let cs = filter (\<lambda>c. pe_CoreID pe = core_CoreID c \<and> core_EmulatorID c = emu_ID e)
                 (db_emulator_cores db)
      in if cs = [] then [(e, pe, None)] else map (\<lambda>c. (e, pe, Some c)) cs)"

definition joined_rows :: "DB \<Rightarrow> joined_row list" where
  "joined_rows db =
     concat (map (\<lambda>e. concat (map (left_join_cores db e)
                                 (filter (\<lambda>pe. emu_ID e = pe_EmulatorID pe) (db_platform_emulators db))))
                 (db_emulators db))"

text \<open>\<^verbatim>\<open>e.is_available = 1 AND (c.core_id IS NULL OR c.is_available = 1)\<close>\<close>

definition row_available :: "joined_row \<Rightarrow> bool" where
  "row_available r =
     (case r of (e, pe, c) \<Rightarrow>
        emu_IsAvailable e \<and> (case c of None \<Rightarrow> True | Some core \<Rightarrow> core_IsAvailable core))"

text \<open>
  The platform queries do not select \<open>e.supported_platforms\<close>, so the emulator struct
  they fill in has an empty \<open>SupportedPlatforms\<close>.
\<close>

definition scan_row :: "joined_row \<Rightarrow> Emulator \<times> EmulatorCore option" where
  "scan_row r = (case r of (e, pe, c) \<Rightarrow> (e\<lparr>emu_SupportedPlatforms := []\<rparr>, c))"

text \<open>
  The result of the default query: the rows that match, in the order of the plan.
\<close>

definition default_rows :: "DB \<Rightarrow> string \<Rightarrow> bool \<Rightarrow> joined_row list" where
  "default_rows db platform requireAvailable =
     sort_key (db_plan db (DefaultQuery requireAvailable))
       (filter (\<lambda>r. case r of (e, pe, c) \<Rightarrow>
                  pe_Platform pe = platform \<and> pe_IsDefault pe
                  \<and> (requireAvailable \<longrightarrow> row_available r))
               (joined_rows db))"

definition GetDefaultEmulatorForPlatform ::
  "DB \<Rightarrow> string \<Rightarrow> bool \<Rightarrow> error + (Emulator \<times> EmulatorCore option)" where
  "GetDefaultEmulatorForPlatform db platform requireAvailable =
     (case QueryRow db (default_rows db platform requireAvailable) of
        Inl err \<Rightarrow> Inl err
      | Inr r \<Rightarrow> Inr (scan_row r))"

text \<open>
  \<open>ORDER BY pe.priority ASC\<close>: ascending priority, and among rows of equal priority
  the order of the plan (\<open>sort_key\<close> is a stable sort, so the outer sort keeps the
  order the inner one made among equal priorities).
\<close>

definition available_rows :: "DB \<Rightarrow> string \<Rightarrow> joined_row list" where
  "available_rows db platform =
     sort_key (\<lambda>r. case r of (e, pe, c) \<Rightarrow> pe_priority pe)
       (sort_key (db_plan db AvailableQuery)
          (filter (\<lambda>r. case r of (e, pe, c) \<Rightarrow> pe_Platform pe = platform \<and> row_available r)
                  (joined_rows db)))"

definition GetAvailableEmulatorsForPlatform ::
  "DB \<Rightarrow> string \<Rightarrow> error + (Emulator \<times> EmulatorCore option) list" where
  "GetAvailableEmulatorsForPlatform db platform =
     (case db_fault db of
        Some err \<Rightarrow> Inl (''failed to get available emulators: '' @ err)
      | None \<Rightarrow> Inr (map scan_row (available_rows db platform)))"


section \<open>Emulator resolution (emulator.Service)\<close>

definition getEmulatorAndCore ::
  "DB \<Rightarrow> string \<Rightarrow> string \<Rightarrow> error + (Emulator \<times> EmulatorCore option)" where
  "getEmulatorAndCore db emulatorID coreID =
     (case GetEmulator db emulatorID of
        Inl err \<Rightarrow> Inl (''emulator not found: '' @ emulatorID)
      | Inr emulator \<Rightarrow>
          Inr (emulator,
               if coreID \<noteq> [] then
                 (case GetCore db emulatorID coreID of Inr c \<Rightarrow> Some c | Inl err \<Rightarrow> None)
               else None))"

text \<open>
  \<open>ResolveEmulator\<close> is modelled from the revision of the service with the three
  resolution steps, the one written against the database layer above:
  \<open>GetDefaultEmulatorForPlatform\<close> with its \<open>requireAvailable\<close> argument and
  \<open>GetAvailableEmulatorsForPlatform\<close>.

  Step 1: the instance override, when there is one and its emulator (and core, if one
  was found) are available. \<open>None\<close> is the fall-through.
\<close>

definition resolve_override :: "DB \<Rightarrow> GameInstance \<Rightarrow> (Emulator \<times> EmulatorCore option) option" where
  "resolve_override db instance =
     (case GetInstanceEmulatorSettings db (gi_ID instance) of
        Inl err \<Rightarrow> None
      | Inr settings \<Rightarrow>
          (case getEmulatorAndCore db (ies_EmulatorID settings) (ies_CoreID settings) of
             Inl err \<Rightarrow> None
           | Inr (emu, core) \<Rightarrow>
               if emu_IsAvailable emu \<and> (case core of None \<Rightarrow> True | Some c \<Rightarrow> core_IsAvailable c)
               then Some (emu, core)
               else None))"

definition ResolveEmulator :: "DB \<Rightarrow> GameInstance \<Rightarrow> error + (Emulator \<times> EmulatorCore option)" where
  "ResolveEmulator db instance =
     (case resolve_override db instance of
        Some pair \<Rightarrow> Inr pair
      | None \<Rightarrow>
          (case GetDefaultEmulatorForPlatform db (gi_Platform instance) True of
             Inr pair \<Rightarrow> Inr pair
           | Inl err1 \<Rightarrow>
               (case GetAvailableEmulatorsForPlatform db (gi_Platform instance) of
                  Inl err \<Rightarrow>
                    Inl (''no emulator available for platform '' @ gi_Platform instance @ '': '' @ err)
                | Inr availablePairs \<Rightarrow>
                    (case availablePairs of
                       pair # _ \<Rightarrow> Inr pair
                     | [] \<Rightarrow> Inl (''no available emulator for platform '' @ gi_Platform instance)))))"

text \<open>
  The earlier revision of \<open>ResolveEmulator\<close> (services/games/emulator/service.go)
  returns the override as \<open>getEmulatorAndCore\<close> finds it and otherwise the platform
  default; it has no availability check and no third step. It calls a one-argument
  \<open>GetDefaultEmulatorForPlatform\<close>, which the database layer no longer has and which
  is a parameter here.
\<close>

definition ResolveEmulator_earlier ::
  "DB \<Rightarrow> (string \<Rightarrow> error + (Emulator \<times> EmulatorCore option)) \<Rightarrow> GameInstance
     \<Rightarrow> error + (Emulator \<times> EmulatorCore option)" where
  "ResolveEmulator_earlier db getDefault instance =
     (case GetInstanceEmulatorSettings db (gi_ID instance) of
        Inr settings \<Rightarrow> getEmulatorAndCore db (ies_EmulatorID settings) (ies_CoreID settings)
      | Inl err0 \<Rightarrow>
          (case getDefault (gi_Platform instance) of
             Inl err \<Rightarrow> Inl err
           | Inr pair \<Rightarrow> Inr pair))"

text \<open>
  \<open>BuildCommand\<close>. The core library path is \<open>filepath.Join\<close> of \<open>HOME\<close>, the fixed
  directories and the core file name; for a \<open>HOME\<close> that is a clean absolute path and
  a core id without separators that is the concatenation below.
\<close>

definition coreLibPath_of :: "string \<Rightarrow> EmulatorCore \<Rightarrow> string" where
  "coreLibPath_of home core =
     home @ ''/.var/app/org.libretro.RetroArch/config/retroarch/cores/'' @ core_CoreID core @ ''.so''"

definition BuildCommand ::
  "string \<Rightarrow> Emulator option \<Rightarrow> EmulatorCore option \<Rightarrow> string \<Rightarrow> string \<Rightarrow> error + string list" where
  "BuildCommand home emulator core romPath customArgs =
     (case emulator of
        None \<Rightarrow> Inl ''emulator is nil''
      | Some emu \<Rightarrow>
          if \<not> emu_IsAvailable emu then Inl (''emulator '' @ emu_ID emu @ '' is not available'')
          else
            (let coreLibPath =
                   (case core of
                      Some c \<Rightarrow> if emu_ID emu = ''retroarch'' then coreLibPath_of home c else []
                    | None \<Rightarrow> []);
                 args =
                   (if customArgs \<noteq> [] then
                      (if emu_DefaultArgs emu \<noteq> [] then emu_DefaultArgs emu @ '' '' @ customArgs
                       else customArgs)
                    else emu_DefaultArgs emu)
             in if emu_Type emu = EmulatorTypeFlatpak
                then Inr (buildFlatpakCommand emu coreLibPath romPath args)
                else Inr (buildNativeCommand emu romPath args)))"


subsection \<open>Vocabulary for the resolution properties\<close>

definition row_platform :: "joined_row \<Rightarrow> string" where
  "row_platform r = (case r of (e, pe, c) \<Rightarrow> pe_Platform pe)"

definition row_default :: "joined_row \<Rightarrow> bool" where
  "row_default r = (case r of (e, pe, c) \<Rightarrow> pe_IsDefault pe)"

definition row_priority :: "joined_row \<Rightarrow> int" where
  "row_priority r = (case r of (e, pe, c) \<Rightarrow> pe_priority pe)"

text \<open>
  An override "references an emulator (or core) that is not available": the emulator
  it names has no row or is not marked available, or it names a core and that core
  has no row or is not marked available.
\<close>

definition override_unavailable :: "DB \<Rightarrow> InstanceEmulatorSettings \<Rightarrow> bool" where
  "override_unavailable db s =
     (case GetEmulator db (ies_EmulatorID s) of
        Inl err \<Rightarrow> True
      | Inr e \<Rightarrow> \<not> emu_IsAvailable e \<or>
          (ies_CoreID s \<noteq> [] \<and>
           (case GetCore db (ies_EmulatorID s) (ies_CoreID s) of
              Inl err \<Rightarrow> True
            | Inr c \<Rightarrow> \<not> core_IsAvailable c)))"

text \<open>
  The narrower condition under which step 1 falls through: as above, except that a
  named core must have a row (whose flag is off) to count as unavailable.
\<close>

definition override_marked_unavailable :: "DB \<Rightarrow> InstanceEmulatorSettings \<Rightarrow> bool" where
  "override_marked_unavailable db s =
     (case GetEmulator db (ies_EmulatorID s) of
        Inl err \<Rightarrow> True
      | Inr e \<Rightarrow> \<not> emu_IsAvailable e \<or>
          (ies_CoreID s \<noteq> [] \<and>
           (case GetCore db (ies_EmulatorID s) (ies_CoreID s) of
              Inl err \<Rightarrow> False
            | Inr c \<Rightarrow> \<not> core_IsAvailable c)))"

subsection \<open>Sample data: the seeded emulators of the repository\<close>

definition retroarch :: Emulator where
  "retroarch = \<lparr>emu_ID = ''retroarch'', emu_Name = ''retroarch'', emu_DisplayName = ''RetroArch'',
     emu_Type = EmulatorTypeFlatpak, emu_ExecutablePath = [],
     emu_FlatpakID = ''org.libretro.RetroArch'',
     emu_CommandTemplate = ''flatpak run {flatpak_id} -L {core_lib_path} {args} {rom}'',
     emu_DefaultArgs = ''--fullscreen'', emu_SupportedPlatforms = [], emu_IsAvailable = True\<rparr>"

definition nestopia :: Emulator where
  "nestopia = \<lparr>emu_ID = ''nestopia'', emu_Name = ''nestopia'', emu_DisplayName = ''Nestopia UE'',
     emu_Type = EmulatorTypeFlatpak, emu_ExecutablePath = [],
     emu_FlatpakID = ''ca._0ldsk00l.Nestopia'',
     emu_CommandTemplate = ''flatpak run {flatpak_id} {args} {rom}'',
     emu_DefaultArgs = ''--fullscreen'', emu_SupportedPlatforms = [''nes''], emu_IsAvailable = True\<rparr>"

definition mesen :: EmulatorCore where
  "mesen = \<lparr>core_ID = ''retroarch_mesen'', core_EmulatorID = ''retroarch'',
     core_CoreID = ''mesen_libretro'', core_DisplayName = ''Mesen'',
     core_SupportedPlatforms = [''nes''], core_IsAvailable = True\<rparr>"

definition nes_mesen :: PlatformEmulator where
  "nes_mesen = \<lparr>pe_ID = ''nes_retroarch_mesen_libretro'', pe_Platform = ''nes'',
     pe_EmulatorID = ''retroarch'', pe_CoreID = ''mesen_libretro'', pe_IsDefault = True,
     pe_priority = 0\<rparr>"

definition nes_nestopia :: PlatformEmulator where
  "nes_nestopia = \<lparr>pe_ID = ''nes_nestopia'', pe_Platform = ''nes'', pe_EmulatorID = ''nestopia'',
     pe_CoreID = [], pe_IsDefault = False, pe_priority = 0\<rparr>"

definition seeded_db :: DB where
  "seeded_db = \<lparr>db_emulators = [retroarch, nestopia], db_emulator_cores = [mesen],
     db_platform_emulators = [nes_nestopia, nes_mesen], db_instance_emulator_settings = [],
     db_fault = None, db_plan = (\<lambda>q r. 0)\<rparr>"

definition rom_instance :: GameInstance where
  "rom_instance = \<lparr>gi_ID = ''emulated-1'', gi_GameID = ''game-1'', gi_Source = ''emulated'',
     gi_Platform = ''nes'', gi_SourceID = [], gi_Path = ''/roms/nes/Zelda.nes'',
     gi_Filename = ''Zelda.nes'', gi_FileHash = [], gi_Installed = True, gi_InstallPath = []\<rparr>"

text \<open>An override naming Nestopia, which the last discovery pass found missing.\<close>

definition nestopia_override :: InstanceEmulatorSettings where
  "nestopia_override = \<lparr>ies_InstanceID = ''emulated-1'', ies_EmulatorID = ''nestopia'',
     ies_CoreID = [], ies_CustomArgs = []\<rparr>"

definition stale_emulator_db :: DB where
  "stale_emulator_db = seeded_db\<lparr>db_emulators := [retroarch, nestopia\<lparr>emu_IsAvailable := False\<rparr>],
     db_instance_emulator_settings := [nestopia_override]\<rparr>"

text \<open>An override naming RetroArch with a core that has no row in \<open>emulator_cores\<close>.\<close>

definition fceumm_override :: InstanceEmulatorSettings where
  "fceumm_override = \<lparr>ies_InstanceID = ''emulated-1'', ies_EmulatorID = ''retroarch'',
     ies_CoreID = ''fceumm_libretro'', ies_CustomArgs = []\<rparr>"

definition stale_core_db :: DB where
  "stale_core_db = seeded_db\<lparr>db_instance_emulator_settings := [fceumm_override]\<rparr>"

text \<open>The same override, with a row for the core that discovery has marked missing.\<close>

definition fceumm :: EmulatorCore where
  "fceumm = \<lparr>core_ID = ''retroarch_fceumm'', core_EmulatorID = ''retroarch'',
     core_CoreID = ''fceumm_libretro'', core_DisplayName = ''FCEUmm'',
     core_SupportedPlatforms = [''nes''], core_IsAvailable = False\<rparr>"

definition flagged_core_db :: DB where
  "flagged_core_db = stale_core_db\<lparr>db_emulator_cores := [mesen, fceumm]\<rparr>"

text \<open>The default core is missing and only the non-default Nestopia is installed.\<close>

definition fallback_db :: DB where
  "fallback_db = seeded_db\<lparr>db_emulator_cores := [mesen\<lparr>core_IsAvailable := False\<rparr>]\<rparr>"

text \<open>
  No default for the platform, and two installed candidates of equal priority; two
  query plans that yield them in opposite orders.
\<close>

definition nestopia_first :: "query \<Rightarrow> joined_row \<Rightarrow> nat" where
  "nestopia_first q r = (case r of (e, pe, c) \<Rightarrow> if emu_ID e = ''nestopia'' then 0 else 1)"

definition retroarch_first :: "query \<Rightarrow> joined_row \<Rightarrow> nat" where
  "retroarch_first q r = (case r of (e, pe, c) \<Rightarrow> if emu_ID e = ''retroarch'' then 0 else 1)"

definition nes_mesen_plain :: PlatformEmulator where
  "nes_mesen_plain = nes_mesen\<lparr>pe_IsDefault := False\<rparr>"

definition tie_db :: DB where
  "tie_db = seeded_db\<lparr>db_platform_emulators := [nes_nestopia, nes_mesen_plain],
     db_plan := nestopia_first\<rparr>"



subsection \<open>Sample data: command building\<close>

text \<open>
  The seeded RetroArch entry with the command template
  \<^verbatim>\<open>run {flatpak_id} -L {core_lib_path} {args} {rom}\<close>, and a ROM whose file name holds
  spaces and double quotes: \<^verbatim>\<open>/roms/My "Best" Game.nes\<close>.
\<close>

definition template_emulator :: Emulator where
  "template_emulator =
     retroarch\<lparr>emu_CommandTemplate := ''run {flatpak_id} -L {core_lib_path} {args} {rom}''\<rparr>"

definition best_game_path :: string where
  "best_game_path = ''/roms/My '' @ [dquote] @ ''Best'' @ [dquote] @ '' Game.nes''"

text \<open>A character that \<open>Quote\<close> copies unchanged.\<close>

definition plain :: "char \<Rightarrow> bool" where
  "plain c =
     (c \<noteq> dquote \<and> c \<noteq> backslash \<and> 32 \<le> (of_char c :: nat) \<and> (of_char c :: nat) \<noteq> 127)"


section \<open>Activity-based process monitor (GamesService.monitorGameProcess)\<close>

datatype LaunchStatus =
  LaunchStatusLaunching | LaunchStatusRunning | LaunchStatusStopped | LaunchStatusFailed

record LaunchStatusUpdate =
  lsu_InstanceID :: string
  lsu_GameID :: string
  lsu_Status :: LaunchStatus
  lsu_Error :: string

text \<open>Times and durations are counted in nanoseconds, as \<open>time.Duration\<close> does.\<close>

definition second :: int where
  "second = 1000000000"

definition stopThreshold :: int where
  "stopThreshold = 10 * second"

text \<open>
  \<open>emitLaunchStatus\<close> sends nothing when no application is running (\<open>app\<close> is the
  outcome of \<open>application.Get() != nil\<close>); otherwise it emits one update.
\<close>

definition emitLaunchStatus ::
  "bool \<Rightarrow> string \<Rightarrow> string \<Rightarrow> LaunchStatus \<Rightarrow> string \<Rightarrow> LaunchStatusUpdate list" where
  "emitLaunchStatus app instanceID gameID status errMsg =
     (if \<not> app then []
      else [\<lparr>lsu_InstanceID = instanceID, lsu_GameID = gameID, lsu_Status = status,
             lsu_Error = errMsg\<rparr>])"

text \<open>
  The monitor loops over ticker events and only leaves the loop by returning after
  "stopped". It is modelled by what it does on a finite run of ticks: each tick
  carries the clock reading of that iteration and the result of
  \<open>isProcessRunningInPath\<close>. \<open>ms_returned\<close> says that the function has returned;
  later ticks then find nobody listening.
\<close>

record monitor_state =
  ms_lastSeenRunning :: int
  ms_hasBeenRunning :: bool
  ms_emitted :: "LaunchStatusUpdate list"
  ms_returned :: bool

definition monitor_init :: monitor_state where
  "monitor_init = \<lparr>ms_lastSeenRunning = 0, ms_hasBeenRunning = False, ms_emitted = [],
     ms_returned = False\<rparr>"

type_synonym tick = "int \<times> (error + bool)"

definition monitor_tick :: "bool \<Rightarrow> GameInstance \<Rightarrow> monitor_state \<Rightarrow> tick \<Rightarrow> monitor_state" where
  "monitor_tick app instance st tk =
     (if ms_returned st then st
      else case tk of (now, probe) \<Rightarrow>
        (case probe of
           Inl err \<Rightarrow> st
         | Inr running \<Rightarrow>
             if running then
               (if \<not> ms_hasBeenRunning st
                then st\<lparr>ms_emitted := ms_emitted st @
                           emitLaunchStatus app (gi_ID instance) (gi_GameID instance)
                             LaunchStatusRunning [],
                        ms_hasBeenRunning := True, ms_lastSeenRunning := now\<rparr>
                else st\<lparr>ms_lastSeenRunning := now\<rparr>)
             else if ms_hasBeenRunning st \<and> now - ms_lastSeenRunning st > stopThreshold then
               st\<lparr>ms_emitted := ms_emitted st @
                       emitLaunchStatus app (gi_ID instance) (gi_GameID instance)
                         LaunchStatusStopped [],
                  ms_returned := True\<rparr>
             else st))"

definition monitorGameProcess :: "bool \<Rightarrow> GameInstance \<Rightarrow> tick list \<Rightarrow> monitor_state" where
  "monitorGameProcess app instance ticks = foldl (monitor_tick app instance) monitor_init ticks"

text \<open>
  A tick detects the process when its probe succeeded and found it. A tick is overdue
  with respect to the reading \<open>seen\<close> of the last detection when its probe succeeded,
  found nothing, and its own reading is more than the threshold later: this is the
  comparison \<open>time.Since(lastSeenRunning) > stopThreshold\<close> of that iteration.
\<close>

definition detected :: "tick \<Rightarrow> bool" where
  "detected tk = (snd tk = Inr True)"

definition overdue :: "int \<Rightarrow> tick \<Rightarrow> bool" where
  "overdue seen tk = (snd tk = Inr False \<and> stopThreshold < fst tk - seen)"

text \<open>
  The states the monitor is in after a detection read at \<open>seen\<close>, and after the
  "stopped" event that follows it.
\<close>

definition running_state :: "bool \<Rightarrow> GameInstance \<Rightarrow> int \<Rightarrow> monitor_state" where
  "running_state app instance seen =
     \<lparr>ms_lastSeenRunning = seen, ms_hasBeenRunning = True,
      ms_emitted = emitLaunchStatus app (gi_ID instance) (gi_GameID instance)
                     LaunchStatusRunning [],
      ms_returned = False\<rparr>"

definition stopped_state :: "bool \<Rightarrow> GameInstance \<Rightarrow> int \<Rightarrow> monitor_state" where
  "stopped_state app instance seen =
     \<lparr>ms_lastSeenRunning = seen, ms_hasBeenRunning = True,
      ms_emitted = emitLaunchStatus app (gi_ID instance) (gi_GameID instance)
                     LaunchStatusRunning []
                   @ emitLaunchStatus app (gi_ID instance) (gi_GameID instance)
                       LaunchStatusStopped [],
      ms_returned = True\<rparr>"

text \<open>
  A detection trace sampled once per second from time \<open>t\<close> on. The ticker fires the
  k-th tick at \<open>t + k\<close> seconds; the iteration then scans the install path and reads
  the clock after the scan, so the reading of the tick is later than its firing by
  the delay of that iteration. The probe never fails, and it detects the process or
  not as the list says.
\<close>

fun every_second :: "int \<Rightarrow> (int \<times> bool) list \<Rightarrow> tick list" where
  "every_second t [] = []"
| "every_second t ((delay, d) # xs) = (t + second + delay, Inr d) # every_second (t + second) xs"

text \<open>Nine detections and then eleven samples without one, with the given delays.\<close>

definition nine_then_eleven :: "int list \<Rightarrow> (int \<times> bool) list" where
  "nine_then_eleven delays = zip delays (replicate 9 True @ replicate 11 False)"

text \<open>
  Sample data: scans that read the clock right when the tick fires, except one that
  is a nanosecond late at the tenth sample without detection; and ticks before the
  process is up, one of them with a failed probe.
\<close>

definition jitter :: "int list" where
  "jitter = replicate 18 0 @ [1, 0]"

definition idle_trace :: "tick list" where
  "idle_trace = [(3, Inr False), (5, Inl ''permission denied''), (40, Inr False)]"

definition statuses :: "monitor_state \<Rightarrow> LaunchStatus list" where
  "statuses st = map lsu_Status (ms_emitted st)"


section \<open>Metadata fetcher (services/games/metadata/fetcher.go)\<close>

subsection \<open>Requests, results, resolvers\<close>

text \<open>
  \<open>models.FetchRequest\<close> with the \<open>Source\<close> and \<open>Platform\<close> fields the resolver chain
  reads. \<open>models.ResolvedMetadata\<close> keeps the game-level fields and the art URLs; the
  chain only passes it on. A resolver is its name, its \<open>Supports\<close> predicate and its
  \<open>Resolve\<close> function, whose outcome on a request is an error or the metadata.
\<close>

record FetchRequest =
  fr_GameID :: string
  fr_InstanceID :: string
  fr_Priority :: int
  fr_Platforms :: "string list"
  fr_Name :: string
  fr_FileHash :: string
  fr_Source :: string
  fr_Platform :: string

record ResolvedMetadata =
  md_Name :: string
  md_Description :: string
  md_Developer :: string
  md_Publisher :: string
  md_Genres :: "string list"
  md_ArtURLs :: "(string \<times> string) list"

record Resolver =
  res_Name :: string
  res_Supports :: "string \<Rightarrow> string \<Rightarrow> bool"
  res_Resolve :: "FetchRequest \<Rightarrow> error + ResolvedMetadata"

subsection \<open>The fetcher and its API\<close>

text \<open>
  The fields of \<open>Fetcher\<close>. The channel \<open>queue\<close> is its buffer (capacity 100) and
  its closed flag. \<open>onResolve\<close> is \<open>None\<close> for a nil callback. A cancel function is
  identified by the serial number of the context it cancels: \<open>f_cancelMap\<close> maps an
  instance id to that number, \<open>f_cancelled\<close> holds the contexts whose cancel function
  has been called, \<open>f_nextCtx\<close> numbers the next context. \<open>f_wg\<close> is the counter of
  the wait group.
\<close>

record Fetcher =
  f_queue :: "FetchRequest list"
  f_queueClosed :: bool
  f_workers :: int
  f_resolvers :: "Resolver list"
  f_cancelMap :: "string \<rightharpoonup> nat"
  f_onResolve :: "unit option"
  f_isRunning :: bool
  f_wg :: int
  f_cancelled :: "nat set"
  f_nextCtx :: nat

type_synonym panic = string

definition queueCapacity :: nat where
  "queueCapacity = 100"

definition NewFetcher :: "int \<Rightarrow> Fetcher" where
  "NewFetcher workers =
     \<lparr>f_queue = [], f_queueClosed = False,
      f_workers = (if workers \<le> 0 then 2 else workers),
      f_resolvers = [], f_cancelMap = Map.empty, f_onResolve = None, f_isRunning = False,
      f_wg = 0, f_cancelled = {}, f_nextCtx = 0\<rparr>"

definition RegisterResolver :: "Fetcher \<Rightarrow> Resolver \<Rightarrow> Fetcher" where
  "RegisterResolver f resolver = f\<lparr>f_resolvers := f_resolvers f @ [resolver]\<rparr>"

definition SetOnResolveCallback :: "Fetcher \<Rightarrow> Fetcher" where
  "SetOnResolveCallback f = f\<lparr>f_onResolve := Some ()\<rparr>"

definition Start :: "Fetcher \<Rightarrow> Fetcher" where
  "Start f =
     (if f_isRunning f then f
      else f\<lparr>f_isRunning := True, f_wg := f_wg f + f_workers f\<rparr>)"

text \<open>
  \<open>Stop\<close>. Under the lock: clear the running flag, call every registered cancel
  function, replace the map by an empty one. Then \<open>close(f.queue)\<close>, which panics on
  a channel that is already closed, and \<open>f.wg.Wait()\<close>: when \<open>Stop\<close> returns, the
  workers have taken what was left in the buffer and have exited.
\<close>

definition stop_locked :: "Fetcher \<Rightarrow> Fetcher" where
  "stop_locked f =
     f\<lparr>f_isRunning := False,
       f_cancelled := f_cancelled f \<union> ran (f_cancelMap f),
       f_cancelMap := Map.empty\<rparr>"

definition Stop :: "Fetcher \<Rightarrow> panic + Fetcher" where
  "Stop f =
     (if \<not> f_isRunning f then Inr f
      else
        (let f1 = stop_locked f in
         if f_queueClosed f1 then Inl ''close of closed channel''
         else Inr (f1\<lparr>f_queueClosed := True, f_queue := [], f_wg := 0\<rparr>)))"

text \<open>
  \<open>Queue\<close>. The \<open>select\<close> sends at once when the buffer has room. On a full buffer it
  waits up to one second; \<open>slotFreed\<close> says whether a worker receives from the channel
  within that wait (the head of the buffer leaves and the request enters). A send on
  a closed channel panics. The result is a panic, or the returned error (\<open>None\<close> for
  nil) with the fetcher after the call.
\<close>

definition Queue :: "Fetcher \<Rightarrow> bool \<Rightarrow> FetchRequest \<Rightarrow> panic + (error option \<times> Fetcher)" where
  "Queue f slotFreed req =
     (if \<not> f_isRunning f then Inr (Some ''fetcher is not running'', f)
      else if f_queueClosed f then Inl ''send on closed channel''
      else if length (f_queue f) < queueCapacity then
        Inr (None, f\<lparr>f_queue := f_queue f @ [req]\<rparr>)
      else if slotFreed then Inr (None, f\<lparr>f_queue := tl (f_queue f) @ [req]\<rparr>)
      else Inr (Some ''queue is full'', f))"

definition Cancel :: "Fetcher \<Rightarrow> string \<Rightarrow> Fetcher" where
  "Cancel f instanceID =
     (case f_cancelMap f instanceID of
        Some cancel \<Rightarrow>
          f\<lparr>f_cancelled := insert cancel (f_cancelled f),
            f_cancelMap := (f_cancelMap f)(instanceID := None)\<rparr>
      | None \<Rightarrow> f)"

subsection \<open>processRequest: the resolver chain\<close>

text \<open>
  One iteration of the loop over \<open>f.resolvers\<close>: the cancellation check
  (\<open>done\<close> is whether \<open>ctx.Done()\<close> is ready at that check), the \<open>Supports\<close> gate,
  the \<open>Resolve\<close> call.
\<close>

datatype attempt = Cancelled | Unsupported | Failed error | Succeeded ResolvedMetadata

definition try_resolver :: "bool \<Rightarrow> Resolver \<Rightarrow> FetchRequest \<Rightarrow> attempt" where
  "try_resolver done resolver req =
     (if done then Cancelled
      else if \<not> res_Supports resolver (fr_Source req) (fr_Platform req) then Unsupported
      else (case res_Resolve resolver req of
              Inl err \<Rightarrow> Failed err
            | Inr resolved \<Rightarrow> Succeeded resolved))"

text \<open>
  What a run of the chain does, in order: \<open>EvResolve i\<close> is the call of \<open>Resolve\<close> on
  the resolver registered at position \<open>i\<close>, \<open>EvUnsupported i\<close> its being skipped by
  the gate, \<open>EvCallback\<close> the call of the on-resolve callback with its three
  arguments, \<open>EvCancelled\<close> the silent return on cancellation, \<open>EvAllFailed\<close> the
  warning that lists the sources tried.
\<close>

datatype event =
    EvCancelled
  | EvUnsupported nat
  | EvResolve nat
  | EvCallback FetchRequest ResolvedMetadata string
  | EvAllFailed "string list"

fun resolver_chain ::
  "(nat \<Rightarrow> bool) \<Rightarrow> unit option \<Rightarrow> FetchRequest \<Rightarrow> nat \<Rightarrow> string list \<Rightarrow> Resolver list
     \<Rightarrow> event list" where
  "resolver_chain done onResolve req i sourcesTried [] = [EvAllFailed sourcesTried]"
| "resolver_chain done onResolve req i sourcesTried (resolver # rest) =
     (case try_resolver (done i) resolver req of
        Cancelled \<Rightarrow> [EvCancelled]
      | Unsupported \<Rightarrow>
          EvUnsupported i # resolver_chain done onResolve req (Suc i) sourcesTried rest
      | Failed err \<Rightarrow>
          EvResolve i #
            resolver_chain done onResolve req (Suc i) (sourcesTried @ [res_Name resolver]) rest
      | Succeeded resolved \<Rightarrow>
          EvResolve i #
            (case onResolve of
               Some cb \<Rightarrow> [EvCallback req resolved (res_Name resolver)]
             | None \<Rightarrow> []))"

text \<open>
  Registering the cancel function of a fresh context under the instance id, and the
  deferred function: delete the entry for the instance id, then cancel the context.
\<close>

definition register_cancel :: "Fetcher \<Rightarrow> FetchRequest \<Rightarrow> nat \<times> Fetcher" where
  "register_cancel f req =
     (f_nextCtx f,
      f\<lparr>f_cancelMap := (f_cancelMap f)(fr_InstanceID req \<mapsto> f_nextCtx f),
        f_nextCtx := Suc (f_nextCtx f)\<rparr>)"

definition release_cancel :: "Fetcher \<Rightarrow> FetchRequest \<Rightarrow> nat \<Rightarrow> Fetcher" where
  "release_cancel f req ctx =
     f\<lparr>f_cancelMap := (f_cancelMap f)(fr_InstanceID req := None),
       f_cancelled := insert ctx (f_cancelled f)\<rparr>"

text \<open>
  \<open>processRequest\<close> as one worker runs it; \<open>done i\<close> is what the cancellation check
  before resolver \<open>i\<close> observes.
\<close>

definition processRequest ::
  "Fetcher \<Rightarrow> (nat \<Rightarrow> bool) \<Rightarrow> FetchRequest \<Rightarrow> event list \<times> Fetcher" where
  "processRequest f done req =
     (case register_cancel f req of
        (ctx, f1) \<Rightarrow>
          (resolver_chain done (f_onResolve f1) req 0 [] (f_resolvers f1),
           release_cancel f1 req ctx))"

definition delivery :: "unit option \<Rightarrow> FetchRequest \<Rightarrow> ResolvedMetadata \<Rightarrow> string \<Rightarrow> event list" where
  "delivery onResolve req resolved name =
     (case onResolve of Some cb \<Rightarrow> [EvCallback req resolved name] | None \<Rightarrow> [])"

definition before :: "nat \<Rightarrow> event \<Rightarrow> bool" where
  "before n e = (case e of EvUnsupported j \<Rightarrow> j < n | EvResolve j \<Rightarrow> j < n | _ \<Rightarrow> False)"

subsection \<open>Workers and callers running concurrently\<close>

text \<open>
  The fetcher with its worker goroutines, as an interleaving of atomic steps. A step is
  one critical section under \<open>f.mu\<close> or one channel operation of the source:
  \<^item> \<open>LStart\<close>: \<open>Start\<close>, which spawns \<open>workers\<close> new goroutines when not running;
  \<^item> \<open>LStopLocked\<close>, \<open>LStopClose\<close>: the locked part of \<open>Stop\<close> and its \<open>close\<close>;
  \<^item> \<open>LQueue\<close>, \<open>LCancel\<close>: \<open>Queue\<close> (sending when there is room) and \<open>Cancel\<close>;
  \<^item> \<open>LReceive w\<close>: worker \<open>w\<close> takes the next request off the channel;
  \<^item> \<open>LExit w\<close>: worker \<open>w\<close> finds the channel closed and empty and returns;
  \<^item> \<open>LRegister w\<close>: \<open>processRequest\<close> stores the cancel function;
  \<^item> \<open>LNext w\<close>: a loop iteration that moves on (resolver unsupported or failed);
  \<^item> \<open>LFinish w t\<close>: \<open>processRequest\<close> returns and runs its deferred function, after
    a successful \<open>Resolve\<close> (\<open>Resolved\<close>), at the end of the list (\<open>Exhausted\<close>) or at
    a cancellation check that finds the context cancelled (\<open>CancelledByCaller\<close>).

  The steps of one call are not tied to each other (a \<open>close\<close> may come without the
  locked part before it), so the system has every behaviour of the source and some
  more; what holds in all its reachable states holds in the source's.

  A worker is not spawned yet (\<open>WNone\<close>), waiting on the channel (\<open>WIdle\<close>), holding
  a request it has not registered yet (\<open>WDequeued\<close>), in \<open>processRequest\<close> with its
  context and the position of the next resolver (\<open>WInFlight\<close>), or gone (\<open>WExited\<close>).
\<close>

datatype terminal = Resolved | Exhausted | CancelledByCaller

datatype wstate =
  WNone | WIdle | WDequeued FetchRequest | WInFlight FetchRequest nat nat | WExited

record system =
  sys_fetcher :: Fetcher
  sys_worker :: "nat \<Rightarrow> wstate"
  sys_spawned :: nat

datatype label =
    LStart | LStopLocked | LStopClose | LQueue FetchRequest | LCancel string
  | LReceive nat | LExit nat | LRegister nat | LNext nat | LFinish nat terminal


definition finish :: "system \<Rightarrow> nat \<Rightarrow> FetchRequest \<Rightarrow> nat \<Rightarrow> system" where
  "finish s w req ctx =
     s\<lparr>sys_fetcher := release_cancel (sys_fetcher s) req ctx,
       sys_worker := (sys_worker s)(w := WIdle)\<rparr>"

definition sys_step :: "system \<Rightarrow> label \<Rightarrow> system option" where
  "sys_step s l =
     (let f = sys_fetcher s in
      case l of
        LStart \<Rightarrow>
          if f_isRunning f then Some s
          else Some (s\<lparr>sys_fetcher := Start f,
                       sys_worker :=
                         (\<lambda>w. if sys_spawned s \<le> w \<and> w < sys_spawned s + nat (f_workers f)
                              then WIdle else sys_worker s w),
                       sys_spawned := sys_spawned s + nat (f_workers f)\<rparr>)
      | LStopLocked \<Rightarrow>
          if f_isRunning f then Some (s\<lparr>sys_fetcher := stop_locked f\<rparr>) else Some s
      | LStopClose \<Rightarrow>
          if f_queueClosed f then None
          else Some (s\<lparr>sys_fetcher := f\<lparr>f_queueClosed := True\<rparr>\<rparr>)
      | LQueue req \<Rightarrow>
          (case Queue f False req of
             Inr (err, f') \<Rightarrow> Some (s\<lparr>sys_fetcher := f'\<rparr>)
           | Inl p \<Rightarrow> None)
      | LCancel instanceID \<Rightarrow> Some (s\<lparr>sys_fetcher := Cancel f instanceID\<rparr>)
      | LReceive w \<Rightarrow>
          (case (sys_worker s w, f_queue f) of
             (WIdle, req # q) \<Rightarrow>
               Some (s\<lparr>sys_fetcher := f\<lparr>f_queue := q\<rparr>,
                       sys_worker := (sys_worker s)(w := WDequeued req)\<rparr>)
           | _ \<Rightarrow> None)
      | LExit w \<Rightarrow>
          (case (sys_worker s w, f_queue f) of
             (WIdle, []) \<Rightarrow>
               if f_queueClosed f
               then Some (s\<lparr>sys_fetcher := f\<lparr>f_wg := f_wg f - 1\<rparr>,
                            sys_worker := (sys_worker s)(w := WExited)\<rparr>)
               else None
           | _ \<Rightarrow> None)
      | LRegister w \<Rightarrow>
          (case sys_worker s w of
             WDequeued req \<Rightarrow>
               (case register_cancel f req of
                  (ctx, f1) \<Rightarrow>
                    Some (s\<lparr>sys_fetcher := f1,
                            sys_worker := (sys_worker s)(w := WInFlight req ctx 0)\<rparr>))
           | _ \<Rightarrow> None)
      | LNext w \<Rightarrow>
          (case sys_worker s w of
             WInFlight req ctx i \<Rightarrow>
               if i < length (f_resolvers f) then
                 (case try_resolver (ctx \<in> f_cancelled f) (f_resolvers f ! i) req of
                    Unsupported \<Rightarrow>
                      Some (s\<lparr>sys_worker := (sys_worker s)(w := WInFlight req ctx (Suc i))\<rparr>)
                  | Failed err \<Rightarrow>
                      Some (s\<lparr>sys_worker := (sys_worker s)(w := WInFlight req ctx (Suc i))\<rparr>)
                  | _ \<Rightarrow> None)
               else None
           | _ \<Rightarrow> None)
      | LFinish w t \<Rightarrow>
          (case sys_worker s w of
             WInFlight req ctx i \<Rightarrow>
               if i < length (f_resolvers f) then
                 (case try_resolver (ctx \<in> f_cancelled f) (f_resolvers f ! i) req of
                    Cancelled \<Rightarrow>
                      if t = CancelledByCaller then Some (finish s w req ctx) else None
                  | Succeeded resolved \<Rightarrow>
                      if t = Resolved then Some (finish s w req ctx) else None
                  | _ \<Rightarrow> None)
               else if t = Exhausted then Some (finish s w req ctx) else None
           | _ \<Rightarrow> None))"

fun run :: "system \<Rightarrow> label list \<Rightarrow> system option" where
  "run s [] = Some s"
| "run s (l # ls) = (case sys_step s l of None \<Rightarrow> None | Some s' \<Rightarrow> run s' ls)"





subsection \<open>One caller using the API\<close>

text \<open>
  The calls a client makes on a fetcher, one after the other, stopping at a panic.
  \<open>lifecycle\<close> reads off a call history where the fetcher stands: never started
  (\<open>Fresh\<close>), started and not stopped since (\<open>Started\<close>), stopped (\<open>Stopped\<close>),
  or started again after a \<open>Stop\<close> that took effect (\<open>Restarted\<close>).
\<close>

datatype api_call = CallStart | CallStop | CallQueue bool FetchRequest | CallCancel string

definition api_step :: "Fetcher \<Rightarrow> api_call \<Rightarrow> panic + Fetcher" where
  "api_step f c =
     (case c of
        CallStart \<Rightarrow> Inr (Start f)
      | CallStop \<Rightarrow> Stop f
      | CallQueue slotFreed req \<Rightarrow>
          (case Queue f slotFreed req of Inl p \<Rightarrow> Inl p | Inr (err, f') \<Rightarrow> Inr f')
      | CallCancel instanceID \<Rightarrow> Inr (Cancel f instanceID))"

fun api_run :: "Fetcher \<Rightarrow> api_call list \<Rightarrow> panic + Fetcher" where
  "api_run f [] = Inr f"
| "api_run f (c # cs) = (case api_step f c of Inl p \<Rightarrow> Inl p | Inr f' \<Rightarrow> api_run f' cs)"

datatype phase = Fresh | Started | Stopped | Restarted

definition phase_step :: "phase \<Rightarrow> api_call \<Rightarrow> phase" where
  "phase_step p c =
     (case c of
        CallStart \<Rightarrow> (case p of Fresh \<Rightarrow> Started | Started \<Rightarrow> Started
                      | Stopped \<Rightarrow> Restarted | Restarted \<Rightarrow> Restarted)
      | CallStop \<Rightarrow> (case p of Fresh \<Rightarrow> Fresh | Started \<Rightarrow> Stopped
                     | Stopped \<Rightarrow> Stopped | Restarted \<Rightarrow> Restarted)
      | _ \<Rightarrow> p)"

definition lifecycle :: "api_call list \<Rightarrow> phase" where
  "lifecycle cs = foldl phase_step Fresh cs"

definition in_phase :: "Fetcher \<Rightarrow> phase \<Rightarrow> bool" where
  "in_phase f p =
     (length (f_queue f) \<le> queueCapacity \<and>
      (case p of
        Fresh \<Rightarrow> \<not> f_isRunning f \<and> \<not> f_queueClosed f
      | Started \<Rightarrow> f_isRunning f \<and> \<not> f_queueClosed f
      | Stopped \<Rightarrow> \<not> f_isRunning f \<and> f_queueClosed f
      | Restarted \<Rightarrow> f_isRunning f \<and> f_queueClosed f))"

subsection \<open>Sample data: fetcher\<close>

definition zelda_request :: FetchRequest where
  "zelda_request = \<lparr>fr_GameID = ''game-1'', fr_InstanceID = ''emulated-1'', fr_Priority = 0,
     fr_Platforms = [''nes''], fr_Name = ''Zelda'', fr_FileHash = [], fr_Source = ''emulated'',
     fr_Platform = ''nes''\<rparr>"

definition started_fetcher :: Fetcher where
  "started_fetcher =
     \<lparr>f_queue = [], f_queueClosed = False, f_workers = 2, f_resolvers = [],
      f_cancelMap = Map.empty, f_onResolve = None, f_isRunning = True, f_wg = 2,
      f_cancelled = {}, f_nextCtx = 0\<rparr>"

definition stopped_fetcher :: Fetcher where
  "stopped_fetcher = started_fetcher\<lparr>f_isRunning := False, f_queueClosed := True, f_wg := 0\<rparr>"

definition restarted_fetcher :: Fetcher where
  "restarted_fetcher = stopped_fetcher\<lparr>f_isRunning := True, f_wg := 2\<rparr>"

text \<open>
  Four resolvers in registration order: one that only supports the storefront, one
  whose network call fails, and two that succeed.
\<close>

definition name_only :: "FetchRequest \<Rightarrow> ResolvedMetadata" where
  "name_only req = \<lparr>md_Name = fr_Name req, md_Description = [], md_Developer = [],
     md_Publisher = [], md_Genres = [], md_ArtURLs = []\<rparr>"

definition steam_only :: Resolver where
  "steam_only = \<lparr>res_Name = ''steam_store'',
     res_Supports = (\<lambda>source platform. source = ''steam''),
     res_Resolve = (\<lambda>req. Inl ''not a steam title'')\<rparr>"

definition offline :: Resolver where
  "offline = \<lparr>res_Name = ''offline'', res_Supports = (\<lambda>source platform. True),
     res_Resolve = (\<lambda>req. Inl ''network unreachable'')\<rparr>"

definition catalog :: Resolver where
  "catalog = \<lparr>res_Name = ''catalog'',
     res_Supports = (\<lambda>source platform. source = ''emulated''),
     res_Resolve = (\<lambda>req. Inr (name_only req))\<rparr>"

definition mirror :: Resolver where
  "mirror = \<lparr>res_Name = ''mirror'', res_Supports = (\<lambda>source platform. True),
     res_Resolve = (\<lambda>req. Inr (name_only req))\<rparr>"

definition chain_fetcher :: Fetcher where
  "chain_fetcher = started_fetcher\<lparr>f_resolvers := [steam_only, offline, catalog, mirror],
     f_onResolve := Some ()\<rparr>"




section \<open>Properties of the command builder\<close>

lemma parse_step_nonempty:
  assumes "\<forall>t \<in> set (ps_args st). t \<noteq> []"
  shows "\<forall>t \<in> set (ps_args (parse_step st r)). t \<noteq> []"
  using assms by (auto simp: parse_step_def)

lemma parse_loop_nonempty:
  assumes "\<forall>t \<in> set (ps_args st). t \<noteq> []"
  shows "\<forall>t \<in> set (ps_args (foldl parse_step st cmd)). t \<noteq> []"
  using assms
proof (induction cmd arbitrary: st)
  case Nil
  then show ?case by simp
next
  case (Cons r cmd)
  have "\<forall>t \<in> set (ps_args (parse_step st r)). t \<noteq> []"
    using Cons.prems by (rule parse_step_nonempty)
  then show ?case using Cons.IH by simp
qed

lemma parse_finish_nonempty:
  assumes "\<forall>t \<in> set (ps_args st). t \<noteq> []"
  shows "\<forall>t \<in> set (parse_finish st). t \<noteq> []"
  using assms by (auto simp: parse_finish_def)

lemma parse_tokens_nonempty: "t \<in> set (parseCommandWithQuotes cmd) \<Longrightarrow> t \<noteq> []"
proof -
  have "\<forall>t \<in> set (ps_args parse_init). t \<noteq> []"
    by (simp add: parse_init_def)
  then have "\<forall>t \<in> set (parse_finish (foldl parse_step parse_init cmd)). t \<noteq> []"
    by (intro parse_finish_nonempty parse_loop_nonempty)
  then show "t \<in> set (parseCommandWithQuotes cmd) \<Longrightarrow> t \<noteq> []"
    by (simp add: parseCommandWithQuotes_def)
qed

text \<open>
  C10. Every token returned by \<open>parseCommandWithQuotes\<close> is non-empty, whatever the
  command string; hence so is every entry of the argv vectors built by
  \<open>buildFlatpakCommand\<close> and \<open>buildNativeCommand\<close>, also when a placeholder was
  replaced by the empty string.
\<close>

theorem argv_tokens_nonempty:
  "(\<forall>t \<in> set (parseCommandWithQuotes cmd). t \<noteq> [])
   \<and> (\<forall>t \<in> set (buildFlatpakCommand emulator coreLibPath romPath args). t \<noteq> [])
   \<and> (\<forall>t \<in> set (buildNativeCommand emulator romPath args). t \<noteq> [])"
  by (auto simp: buildFlatpakCommand_def buildNativeCommand_def Let_def
           dest: parse_tokens_nonempty)

text \<open>
  At a command with runs of spaces and an empty quoted span, and at a build in which
  \<^verbatim>\<open>{core_lib_path}\<close> and \<^verbatim>\<open>{args}\<close> are replaced by the empty string.
\<close>

theorem argv_tokens_nonempty_witness:
  "parseCommandWithQuotes (''run  -L '' @ [dquote, dquote] @ ''  game.nes '')
     = [''run'', ''-L'', ''game.nes'']
   \<and> [] \<notin> set (parseCommandWithQuotes (''run  -L '' @ [dquote, dquote] @ ''  game.nes ''))
   \<and> buildFlatpakCommand (template_emulator\<lparr>emu_DefaultArgs := []\<rparr>) [] ''/roms/Zelda.nes'' []
     = [''run'', ''org.libretro.RetroArch'', ''-L'', ''/roms/Zelda.nes'']
   \<and> [] \<notin> set (buildFlatpakCommand (template_emulator\<lparr>emu_DefaultArgs := []\<rparr>) []
                  ''/roms/Zelda.nes'' [])"
proof -
  have v1: "parseCommandWithQuotes (''run  -L '' @ [dquote, dquote] @ ''  game.nes '')
     = [''run'', ''-L'', ''game.nes'']"
    by code_simp
  have v2: "buildFlatpakCommand (template_emulator\<lparr>emu_DefaultArgs := []\<rparr>) [] ''/roms/Zelda.nes'' []
     = [''run'', ''org.libretro.RetroArch'', ''-L'', ''/roms/Zelda.nes'']"
    by code_simp
  from argv_tokens_nonempty
    [of "''run  -L '' @ [dquote, dquote] @ ''  game.nes ''"
        "template_emulator\<lparr>emu_DefaultArgs := []\<rparr>" "[]" "''/roms/Zelda.nes''" "[]"]
  show ?thesis using v1 v2 by blast
qed

lemma quoteRune_plain: "plain c \<Longrightarrow> quoteRune c = [c]"
  by (simp add: plain_def quoteRune_def Let_def)

lemma Quote_plain: "list_all plain p \<Longrightarrow> Quote p = dquote # p @ [dquote]"
  by (induction p) (auto simp: Quote_def quoteRune_plain)

lemma parse_inside_quotes:
  assumes "dquote \<notin> set p" and "ps_inQuote st" and "ps_quoteChar st = dquote"
  shows "foldl parse_step st p = st\<lparr>ps_currentArg := ps_currentArg st @ p\<rparr>"
  using assms
proof (induction p arbitrary: st)
  case Nil
  then show ?case by simp
next
  case (Cons c p)
  have s: "parse_step st c = st\<lparr>ps_currentArg := ps_currentArg st @ [c]\<rparr>"
    using Cons.prems by (auto simp: parse_step_def)
  show ?case
    using Cons.IH [of "st\<lparr>ps_currentArg := ps_currentArg st @ [c]\<rparr>"] Cons.prems s by simp
qed

lemma parse_quoted_span:
  assumes "dquote \<notin> set p" and "\<not> ps_inQuote st"
  shows "foldl parse_step st (dquote # p @ [dquote])
           = st\<lparr>ps_currentArg := ps_currentArg st @ p, ps_inQuote := False, ps_quoteChar := CHR 0x00\<rparr>"
proof -
  let ?st1 = "st\<lparr>ps_inQuote := True, ps_quoteChar := dquote\<rparr>"
  let ?st2 = "?st1\<lparr>ps_currentArg := ps_currentArg ?st1 @ p\<rparr>"
  have a: "parse_step st dquote = ?st1" using assms(2) by (simp add: parse_step_def)
  have b: "foldl parse_step ?st1 p = ?st2"
    by (rule parse_inside_quotes) (use assms in auto)
  have c: "parse_step ?st2 dquote
      = st\<lparr>ps_currentArg := ps_currentArg st @ p, ps_inQuote := False, ps_quoteChar := CHR 0x00\<rparr>"
    by (simp add: parse_step_def)
  have "foldl parse_step st (dquote # p @ [dquote]) = parse_step (foldl parse_step (parse_step st dquote) p) dquote"
    by simp
  also have "\<dots> = parse_step ?st2 dquote" by (simp only: a b)
  finally show ?thesis by (simp only: c)
qed

lemma template_substituted:
  "ReplaceAll (ReplaceAll (ReplaceAll (emu_CommandTemplate template_emulator)
        ''{flatpak_id}'' (emu_FlatpakID template_emulator))
      ''{core_lib_path}'' (quotePathIfNeeded (coreLibPath_of ''/home/deck'' mesen)))
    ''{args}'' ''--fullscreen''
   = ''run org.libretro.RetroArch -L /home/deck/.var/app/org.libretro.RetroArch/config/retroarch/cores/mesen_libretro.so --fullscreen {rom}''"
  by code_simp

lemma rom_substituted:
  "ReplaceAll ''run org.libretro.RetroArch -L /home/deck/.var/app/org.libretro.RetroArch/config/retroarch/cores/mesen_libretro.so --fullscreen {rom}'' ''{rom}'' q
   = ''run org.libretro.RetroArch -L /home/deck/.var/app/org.libretro.RetroArch/config/retroarch/cores/mesen_libretro.so --fullscreen '' @ q"
  by (simp add: ReplaceAll.simps)

lemma pre_state:
  "foldl parse_step parse_init
     ''run org.libretro.RetroArch -L /home/deck/.var/app/org.libretro.RetroArch/config/retroarch/cores/mesen_libretro.so --fullscreen ''
   = \<lparr>ps_args = [''run'', ''org.libretro.RetroArch'', ''-L'',
        ''/home/deck/.var/app/org.libretro.RetroArch/config/retroarch/cores/mesen_libretro.so'',
        ''--fullscreen''],
      ps_currentArg = [], ps_inQuote = False, ps_quoteChar = CHR 0x00\<rparr>"
  by code_simp

text \<open>
  For the seeded emulator on the template above: a ROM path that contains a space and
  only characters that \<open>Quote\<close> copies unchanged comes back as the last argv entry,
  in one piece and without its quotes.
\<close>

lemma plain_rom_path_single_token:
  assumes "CHR '' '' \<in> set romPath" and "list_all plain romPath"
  shows "buildFlatpakCommand template_emulator (coreLibPath_of ''/home/deck'' mesen) romPath ''--fullscreen''
     = [''run'', ''org.libretro.RetroArch'', ''-L'',
        ''/home/deck/.var/app/org.libretro.RetroArch/config/retroarch/cores/mesen_libretro.so'',
        ''--fullscreen'', romPath]"
proof -
  have q: "quotePathIfNeeded romPath = dquote # romPath @ [dquote]"
    using assms by (simp add: quotePathIfNeeded_def Quote_plain)
  have nq: "dquote \<notin> set romPath"
    using assms(2) by (auto simp: list_all_iff plain_def)
  have ne: "romPath \<noteq> []" using assms(1) by auto
  let ?pre = "''run org.libretro.RetroArch -L /home/deck/.var/app/org.libretro.RetroArch/config/retroarch/cores/mesen_libretro.so --fullscreen ''"
  have "buildFlatpakCommand template_emulator (coreLibPath_of ''/home/deck'' mesen) romPath ''--fullscreen''
      = parseCommandWithQuotes (?pre @ dquote # romPath @ [dquote])"
    unfolding buildFlatpakCommand_def Let_def q template_substituted rom_substituted ..
  also have "\<dots> = parse_finish (foldl parse_step (foldl parse_step parse_init ?pre) (dquote # romPath @ [dquote]))"
    by (simp only: parseCommandWithQuotes_def foldl_append)
  also have "\<dots> = [''run'', ''org.libretro.RetroArch'', ''-L'',
        ''/home/deck/.var/app/org.libretro.RetroArch/config/retroarch/cores/mesen_libretro.so'',
        ''--fullscreen'', romPath]"
  proof -
    let ?st = "\<lparr>ps_args = [''run'', ''org.libretro.RetroArch'', ''-L'',
        ''/home/deck/.var/app/org.libretro.RetroArch/config/retroarch/cores/mesen_libretro.so'',
        ''--fullscreen''],
      ps_currentArg = [], ps_inQuote = False, ps_quoteChar = CHR 0x00\<rparr>"
    have "foldl parse_step ?st (dquote # romPath @ [dquote])
        = ?st\<lparr>ps_currentArg := ps_currentArg ?st @ romPath, ps_inQuote := False,
               ps_quoteChar := CHR 0x00\<rparr>"
      by (rule parse_quoted_span [OF nq]) simp
    then show ?thesis
      unfolding pre_state using ne by (simp add: parse_finish_def)
  qed
  finally show ?thesis .
qed

text \<open>
  C7 at the ROM path \<^verbatim>\<open>/roms/My "Best" Game.nes\<close>. The path contains a space, so
  \<open>quotePathIfNeeded\<close> wraps it with \<open>%q\<close>, which writes each inner double quote as
  backslash, double quote. The tokenizer knows no escapes: it keeps the backslashes
  and takes the double quotes as span delimiters. The argv entry for the ROM is
  \<^verbatim>\<open>/roms/My \Best\ Game.nes\<close>, and no entry equals the original path.
\<close>

theorem build_command_quoted_rom_path:
  "CHR '' '' \<in> set best_game_path
   \<and> BuildCommand ''/home/deck'' (Some template_emulator) (Some mesen) best_game_path []
       = Inr [''run'', ''org.libretro.RetroArch'', ''-L'',
              ''/home/deck/.var/app/org.libretro.RetroArch/config/retroarch/cores/mesen_libretro.so'',
              ''--fullscreen'',
              ''/roms/My '' @ [backslash] @ ''Best'' @ [backslash] @ '' Game.nes'']
   \<and> best_game_path \<notin> set (buildFlatpakCommand template_emulator
          (coreLibPath_of ''/home/deck'' mesen) best_game_path ''--fullscreen'')"
  by code_simp

section \<open>Properties of emulator resolution\<close>

lemma QueryRow_Inr: "db_fault db = None \<Longrightarrow> rows \<noteq> [] \<Longrightarrow> QueryRow db rows = Inr (hd rows)"
  by (cases rows) (auto simp: QueryRow_def)

lemma QueryRow_mem: "QueryRow db rows = Inr r \<Longrightarrow> r \<in> set rows \<and> db_fault db = None"
  by (auto simp: QueryRow_def split: option.splits list.splits)

lemma default_rows_iff:
  "r \<in> set (default_rows db p b) \<longleftrightarrow>
     r \<in> set (joined_rows db) \<and> row_platform r = p \<and> row_default r \<and> (b \<longrightarrow> row_available r)"
  by (auto simp: default_rows_def row_platform_def row_default_def)

lemma available_rows_iff:
  "r \<in> set (available_rows db p) \<longleftrightarrow>
     r \<in> set (joined_rows db) \<and> row_platform r = p \<and> row_available r"
  by (auto simp: available_rows_def row_platform_def)

lemma available_rows_hd_min:
  assumes "r \<in> set (available_rows db p)"
  shows "row_priority (hd (available_rows db p)) \<le> row_priority r"
proof -
  let ?f = "\<lambda>r. case r of (e, pe, c) \<Rightarrow> pe_priority pe"
  have s: "sorted (map ?f (available_rows db p))"
    unfolding available_rows_def by (rule sorted_sort_key)
  obtain x xs where xs: "available_rows db p = x # xs"
    using assms by (cases "available_rows db p") auto
  have "?f x \<le> ?f r" using s assms unfolding xs by auto
  then show ?thesis by (simp add: xs row_priority_def)
qed

lemma override_falls_through:
  assumes "GetInstanceEmulatorSettings db (gi_ID instance) = Inr settings"
    and "override_marked_unavailable db settings"
  shows "resolve_override db instance = None"
  using assms
  by (auto simp: resolve_override_def override_marked_unavailable_def getEmulatorAndCore_def
           split: sum.splits if_splits option.splits)

lemma default_query_fails:
  assumes "\<forall>r \<in> set (joined_rows db). row_platform r = p \<and> row_default r \<longrightarrow> \<not> row_available r"
  shows "\<exists>err. GetDefaultEmulatorForPlatform db p True = Inl err"
proof -
  have "r \<notin> set (default_rows db p True)" for r
    using assms unfolding default_rows_iff by blast
  then have "default_rows db p True = []"
    by (metis list.set_intros(1) list.exhaust)
  then show ?thesis
    by (simp add: GetDefaultEmulatorForPlatform_def QueryRow_def split: option.splits)
qed

text \<open>
  The fall-through where the code has it. When the instance has an override whose
  emulator has no row or is not marked available, or whose core has a row that is not
  marked available, and the platform has a default mapping that is available,
  \<open>ResolveEmulator\<close> returns the pair of the default query and no error.
\<close>

lemma resolve_unavailable_override_uses_default:
  assumes ov: "GetInstanceEmulatorSettings db (gi_ID instance) = Inr settings"
    and un: "override_marked_unavailable db settings"
    and d: "d \<in> set (joined_rows db)" "row_platform d = gi_Platform instance"
      "row_default d" "row_available d"
  shows "\<exists>r \<in> set (joined_rows db).
           row_platform r = gi_Platform instance \<and> row_default r \<and> row_available r
           \<and> ResolveEmulator db instance = Inr (scan_row r)"
proof -
  have nf: "db_fault db = None"
    using ov by (auto simp: GetInstanceEmulatorSettings_def dest: QueryRow_mem)
  have o: "resolve_override db instance = None"
    using ov un by (rule override_falls_through)
  let ?rows = "default_rows db (gi_Platform instance) True"
  have "d \<in> set ?rows" using d by (simp add: default_rows_iff)
  then have ne: "?rows \<noteq> []" by auto
  then have q: "QueryRow db ?rows = Inr (hd ?rows)" using nf by (simp add: QueryRow_Inr)
  have "hd ?rows \<in> set ?rows" using ne by simp
  then have h: "hd ?rows \<in> set (joined_rows db)" "row_platform (hd ?rows) = gi_Platform instance"
      "row_default (hd ?rows)" "row_available (hd ?rows)"
    by (simp_all add: default_rows_iff)
  have "ResolveEmulator db instance = Inr (scan_row (hd ?rows))"
    using o q by (simp add: ResolveEmulator_def GetDefaultEmulatorForPlatform_def)
  with h show ?thesis by blast
qed

text \<open>
  The earlier revision has no fall-through at all: it returns the override's emulator
  although the last discovery pass found it missing.
\<close>

lemma earlier_revision_returns_stale_override:
  "ResolveEmulator_earlier stale_emulator_db getDefault rom_instance
     = Inr (nestopia\<lparr>emu_IsAvailable := False\<rparr>, None)"
  by (simp add: ResolveEmulator_earlier_def GetInstanceEmulatorSettings_def QueryRow_def
        getEmulatorAndCore_def GetEmulator_def stale_emulator_db_def seeded_db_def
        nestopia_override_def rom_instance_def nestopia_def retroarch_def)

text \<open>
  An override that names a core without a row is handled as one that names no core.
\<close>

lemma override_with_missing_core:
  assumes "GetInstanceEmulatorSettings db (gi_ID instance) = Inr settings"
    and "GetEmulator db (ies_EmulatorID settings) = Inr emu"
    and "emu_IsAvailable emu"
    and "GetCore db (ies_EmulatorID settings) (ies_CoreID settings) = Inl err"
  shows "ResolveEmulator db instance = Inr (emu, None)"
  using assms
  by (simp add: ResolveEmulator_def resolve_override_def getEmulatorAndCore_def)

text \<open>
  C1 at an override that names RetroArch with a core that has no row, on a platform
  whose default (RetroArch with Mesen) is available. The override references a core
  that is not available, yet \<open>ResolveEmulator\<close> does not fall through:
  \<open>getEmulatorAndCore\<close> drops the lookup error, the core is taken to be absent, and
  the emulator is returned without a core. The command built from that pair passes
  the arguments where the core library belongs. With a row for the same core that is
  marked unavailable, the same override does fall through to the default.
\<close>

theorem resolve_missing_core_override:
  "GetInstanceEmulatorSettings stale_core_db (gi_ID rom_instance) = Inr fceumm_override
   \<and> GetEmulator stale_core_db (ies_EmulatorID fceumm_override) = Inr retroarch
   \<and> GetCore stale_core_db (ies_EmulatorID fceumm_override) (ies_CoreID fceumm_override)
        = Inl ErrNoRows
   \<and> GetDefaultEmulatorForPlatform stale_core_db (gi_Platform rom_instance) True
        = Inr (retroarch, Some mesen)
   \<and> ResolveEmulator stale_core_db rom_instance = Inr (retroarch, None)
   \<and> BuildCommand ''/home/deck'' (Some retroarch) None (gi_Path rom_instance) []
        = Inr [''flatpak'', ''run'', ''org.libretro.RetroArch'', ''-L'', ''--fullscreen'',
               ''/roms/nes/Zelda.nes'']
   \<and> GetCore flagged_core_db (ies_EmulatorID fceumm_override) (ies_CoreID fceumm_override)
        = Inr fceumm
   \<and> core_IsAvailable fceumm = False
   \<and> ResolveEmulator flagged_core_db rom_instance = Inr (retroarch, Some mesen)"
  by code_simp

text \<open>
  C3. Whatever order the query plan gives to rows the queries leave unordered: with
  no override in effect and no available default mapping for the platform, an
  available mapping for the platform makes \<open>ResolveEmulator\<close> return the first row
  of the result of the available-emulators query, which is a non-default, available
  pair of the platform whose priority is least among the available ones.
\<close>

theorem resolve_uses_first_available_fallback:
  assumes ov: "resolve_override db instance = None"
    and nf: "db_fault db = None"
    and nodef: "\<forall>r \<in> set (joined_rows db).
                  row_platform r = gi_Platform instance \<and> row_default r \<longrightarrow> \<not> row_available r"
    and a: "a \<in> set (joined_rows db)" "row_platform a = gi_Platform instance" "row_available a"
  shows "\<exists>r \<in> set (joined_rows db).
           row_platform r = gi_Platform instance \<and> row_available r \<and> \<not> row_default r
           \<and> (\<forall>r' \<in> set (joined_rows db).
                 row_platform r' = gi_Platform instance \<and> row_available r'
                 \<longrightarrow> row_priority r \<le> row_priority r')
           \<and> r = hd (available_rows db (gi_Platform instance))
           \<and> ResolveEmulator db instance = Inr (scan_row r)"
proof -
  let ?p = "gi_Platform instance"
  let ?rows = "available_rows db ?p"
  obtain err where d: "GetDefaultEmulatorForPlatform db ?p True = Inl err"
    using default_query_fails [OF nodef] by blast
  have "a \<in> set ?rows" using a by (simp add: available_rows_iff)
  then obtain x xs where xs: "?rows = x # xs" by (cases ?rows) auto
  then have xin: "x \<in> set ?rows" by simp
  then have x1: "x \<in> set (joined_rows db)" "row_platform x = ?p" "row_available x"
    by (simp_all add: available_rows_iff)
  then have x2: "\<not> row_default x" using nodef by blast
  have x3: "\<forall>r' \<in> set (joined_rows db).
              row_platform r' = ?p \<and> row_available r' \<longrightarrow> row_priority x \<le> row_priority r'"
  proof (intro ballI impI)
    fix r' assume "r' \<in> set (joined_rows db)" "row_platform r' = ?p \<and> row_available r'"
    then have "r' \<in> set ?rows" by (simp add: available_rows_iff)
    from available_rows_hd_min [OF this] show "row_priority x \<le> row_priority r'"
      by (simp add: xs)
  qed
  have "ResolveEmulator db instance = Inr (scan_row x)"
    using ov d nf xs by (simp add: ResolveEmulator_def GetAvailableEmulatorsForPlatform_def)
  with x1 x2 x3 xs show ?thesis by auto
qed

text \<open>
  Two candidates of equal priority: the pair returned is the one the plan yields
  first, Nestopia under one plan and RetroArch with Mesen under the other, and both
  times it is the head of the query result.
\<close>

theorem resolve_uses_first_available_fallback_witness:
  "ResolveEmulator tie_db rom_instance = Inr (nestopia\<lparr>emu_SupportedPlatforms := []\<rparr>, None)
   \<and> hd (available_rows tie_db (gi_Platform rom_instance)) = (nestopia, nes_nestopia, None)
   \<and> ResolveEmulator (tie_db\<lparr>db_plan := retroarch_first\<rparr>) rom_instance
        = Inr (retroarch, Some mesen)
   \<and> hd (available_rows (tie_db\<lparr>db_plan := retroarch_first\<rparr>) (gi_Platform rom_instance))
        = (retroarch, nes_mesen_plain, Some mesen)
   \<and> (\<exists>r \<in> set (joined_rows tie_db).
           row_platform r = gi_Platform rom_instance \<and> row_available r \<and> \<not> row_default r
           \<and> (\<forall>r' \<in> set (joined_rows tie_db).
                 row_platform r' = gi_Platform rom_instance \<and> row_available r'
                 \<longrightarrow> row_priority r \<le> row_priority r')
           \<and> r = hd (available_rows tie_db (gi_Platform rom_instance))
           \<and> ResolveEmulator tie_db rom_instance = Inr (scan_row r))"
proof -
  have h1: "resolve_override tie_db rom_instance = None"
    by code_simp
  have h2: "db_fault tie_db = None"
    by code_simp
  have h3: "\<forall>r \<in> set (joined_rows tie_db).
         row_platform r = gi_Platform rom_instance \<and> row_default r \<longrightarrow> \<not> row_available r"
    by code_simp
  have h4: "(nestopia, nes_nestopia, None) \<in> set (joined_rows tie_db)"
    by code_simp
  have h5: "row_platform (nestopia, nes_nestopia, None) = gi_Platform rom_instance"
    by code_simp
  have h6: "row_available (nestopia, nes_nestopia, None)"
    by code_simp
  have v1: "ResolveEmulator tie_db rom_instance
              = Inr (nestopia\<lparr>emu_SupportedPlatforms := []\<rparr>, None)"
    by code_simp
  have v2: "hd (available_rows tie_db (gi_Platform rom_instance)) = (nestopia, nes_nestopia, None)"
    by code_simp
  have v3: "ResolveEmulator (tie_db\<lparr>db_plan := retroarch_first\<rparr>) rom_instance
              = Inr (retroarch, Some mesen)"
    by code_simp
  have v4: "hd (available_rows (tie_db\<lparr>db_plan := retroarch_first\<rparr>) (gi_Platform rom_instance))
              = (retroarch, nes_mesen_plain, Some mesen)"
    by code_simp
  from resolve_uses_first_available_fallback [OF h1 h2 h3 h4 h5 h6] v1 v2 v3 v4
  show ?thesis by blast
qed




section \<open>Properties of the process monitor\<close>

lemma tick_not_detected_init:
  "\<not> detected tk \<Longrightarrow> monitor_tick app i monitor_init tk = monitor_init"
  by (cases tk; cases "snd tk")
     (auto simp: detected_def monitor_tick_def monitor_init_def)

lemma idle_ticks:
  "\<forall>tk \<in> set pre. \<not> detected tk \<Longrightarrow> foldl (monitor_tick app i) monitor_init pre = monitor_init"
  by (induction pre) (simp_all add: tick_not_detected_init)

lemma tick_first_detection:
  "detected tk \<Longrightarrow> monitor_tick app i monitor_init tk = running_state app i (fst tk)"
  by (cases tk) (auto simp: detected_def monitor_tick_def monitor_init_def running_state_def)

lemma tick_detected_running:
  "detected tk \<Longrightarrow> monitor_tick app i (running_state app i seen) tk = running_state app i (fst tk)"
  by (cases tk) (auto simp: detected_def monitor_tick_def running_state_def)

lemma detection_ticks:
  "\<forall>tk \<in> set hs. detected tk \<Longrightarrow>
   foldl (monitor_tick app i) (running_state app i seen) hs
     = running_state app i (if hs = [] then seen else fst (last hs))"
  by (induction hs arbitrary: seen) (simp_all add: tick_detected_running)

lemma first_detections:
  "hs \<noteq> [] \<Longrightarrow> \<forall>tk \<in> set hs. detected tk \<Longrightarrow>
   foldl (monitor_tick app i) monitor_init hs = running_state app i (fst (last hs))"
  by (cases hs) (simp_all add: tick_first_detection detection_ticks)

lemma tick_stopped:
  "monitor_tick app i (stopped_state app i seen) tk = stopped_state app i seen"
  by (simp add: monitor_tick_def stopped_state_def)

lemma stopped_ticks:
  "foldl (monitor_tick app i) (stopped_state app i seen) post = stopped_state app i seen"
  by (induction post) (simp_all add: tick_stopped)

lemma tick_overdue:
  "overdue seen tk \<Longrightarrow> monitor_tick app i (running_state app i seen) tk = stopped_state app i seen"
  by (cases tk)
     (auto simp: overdue_def monitor_tick_def running_state_def stopped_state_def)

lemma tick_waiting:
  "\<not> detected tk \<Longrightarrow> \<not> overdue seen tk \<Longrightarrow>
   monitor_tick app i (running_state app i seen) tk = running_state app i seen"
  by (cases tk; cases "snd tk")
     (auto simp: detected_def overdue_def monitor_tick_def running_state_def)

lemma missing_ticks:
  "\<forall>tk \<in> set post. \<not> detected tk \<Longrightarrow>
   foldl (monitor_tick app i) (running_state app i seen) post
     = (if \<exists>tk \<in> set post. overdue seen tk then stopped_state app i seen
        else running_state app i seen)"
proof (induction post)
  case Nil
  then show ?case by simp
next
  case (Cons tk post)
  show ?case
  proof (cases "overdue seen tk")
    case True
    then show ?thesis by (simp add: tick_overdue stopped_ticks)
  next
    case False
    with Cons show ?thesis by (simp add: tick_waiting)
  qed
qed

lemma monitor_trace:
  assumes "\<forall>tk \<in> set pre. \<not> detected tk" and "hs \<noteq> []" and "\<forall>tk \<in> set hs. detected tk"
    and "\<forall>tk \<in> set post. \<not> detected tk"
  shows "monitorGameProcess app i (pre @ hs @ post)
     = (if \<exists>tk \<in> set post. overdue (fst (last hs)) tk then stopped_state app i (fst (last hs))
        else running_state app i (fst (last hs)))"
  using assms
  by (simp add: monitorGameProcess_def idle_ticks first_detections missing_ticks)

lemma statuses_running [simp]:
  "statuses (running_state True i seen) = [LaunchStatusRunning]"
  by (simp add: statuses_def running_state_def emitLaunchStatus_def)

lemma statuses_stopped [simp]:
  "statuses (stopped_state True i seen) = [LaunchStatusRunning, LaunchStatusStopped]"
  by (simp add: statuses_def stopped_state_def emitLaunchStatus_def)
lemma every_second_append:
  "every_second t (xs @ ys) = every_second t xs @ every_second (t + int (length xs) * second) ys"
  by (induction t xs rule: every_second.induct) (simp_all add: algebra_simps)

lemma every_second_take:
  "take n (every_second t xs) = every_second t (take n xs)"
proof (induction t xs arbitrary: n rule: every_second.induct)
  case (1 t)
  then show ?case by simp
next
  case (2 t delay d xs)
  then show ?case by (cases n) simp_all
qed

lemma every_second_empty:
  "(every_second t xs = []) = (xs = [])"
  by (cases "(t, xs)" rule: every_second.cases) simp_all

lemma every_second_detected:
  "\<forall>x \<in> set xs. snd x \<Longrightarrow> \<forall>tk \<in> set (every_second t xs). detected tk"
  by (induction t xs rule: every_second.induct) (simp_all add: detected_def)

lemma every_second_missed:
  "\<forall>x \<in> set xs. \<not> snd x \<Longrightarrow> \<forall>tk \<in> set (every_second t xs). snd tk = Inr False"
  by (induction t xs rule: every_second.induct) simp_all

lemma every_second_last:
  "xs \<noteq> [] \<Longrightarrow>
   fst (last (every_second t xs)) = t + int (length xs) * second + fst (last xs)"
  by (induction t xs rule: every_second.induct)
     (simp_all add: every_second_empty algebra_simps)

lemma every_second_length [simp]:
  "length (every_second t xs) = length xs"
  by (induction t xs rule: every_second.induct) simp_all

lemma every_second_nth:
  "k < length xs \<Longrightarrow>
   every_second t xs ! k = (t + (int k + 1) * second + fst (xs ! k), Inr (snd (xs ! k)))"
proof (induction t xs arbitrary: k rule: every_second.induct)
  case (1 t)
  then show ?case by simp
next
  case (2 t delay d xs)
  then show ?case by (cases k) (simp_all add: algebra_simps)
qed

lemma nine_then_eleven_split:
  "length delays = 20 \<Longrightarrow>
   nine_then_eleven delays
     = zip (take 9 delays) (replicate 9 True) @ zip (drop 9 delays) (replicate 11 False)"
  by (simp add: nine_then_eleven_def zip_append2)

lemma misses_overdue:
  assumes len: "length delays = 20" and m: "m \<le> 11"
  shows "(\<exists>tk \<in> set (every_second (t + 9 * second)
                        (take m (zip (drop 9 delays) (replicate 11 False)))). overdue seen tk)
         = (\<exists>k < m. stopThreshold < t + (10 + int k) * second + delays ! (9 + k) - seen)"
proof -
  let ?M = "take m (zip (drop 9 delays) (replicate 11 False))"
  have lm: "length ?M = m" using len m by simp
  have el: "?M ! k = (delays ! (9 + k), False)" if "k < m" for k
    using that len m by simp
  have "(\<exists>tk \<in> set (every_second (t + 9 * second) ?M). overdue seen tk)
        = (\<exists>k < m. overdue seen (every_second (t + 9 * second) ?M ! k))"
    using lm by (metis every_second_length in_set_conv_nth)
  also have "\<dots> = (\<exists>k < m. stopThreshold < t + (10 + int k) * second + delays ! (9 + k) - seen)"
    using lm by (auto simp: every_second_nth el overdue_def algebra_simps)
  finally show ?thesis .
qed


lemma ms_returned_running [simp]:
  "\<not> ms_returned (running_state app i seen)"
  by (simp add: running_state_def)

lemma ms_returned_stopped [simp]:
  "ms_returned (stopped_state app i seen)"
  by (simp add: stopped_state_def)

lemma during_detection:
  assumes pre: "\<forall>tk \<in> set pre. \<not> detected tk"
    and len: "length delays = 20" and n: "0 < n" "n \<le> 9"
  shows "\<exists>seen. monitorGameProcess app i (pre @ take n (every_second t (nine_then_eleven delays)))
           = running_state app i seen"
proof -
  let ?H = "take n (zip (take 9 delays) (replicate 9 True))"
  have tk: "take n (every_second t (nine_then_eleven delays)) = every_second t ?H"
    using len n by (simp add: every_second_take nine_then_eleven_split)
  have "length ?H = n" using len n by simp
  then have ne: "every_second t ?H \<noteq> []"
    using n by (metis every_second_length length_0_conv less_numeral_extra(3))
  have det: "\<forall>tk \<in> set (every_second t ?H). detected tk"
    by (rule every_second_detected) (auto simp: set_zip dest!: in_set_takeD)
  from monitor_trace [OF pre ne det, of "[]" app i] show ?thesis
    unfolding tk by auto
qed

lemma after_detection:
  assumes pre: "\<forall>tk \<in> set pre. \<not> detected tk"
    and len: "length delays = 20" and m: "m \<le> 11"
  shows "monitorGameProcess app i (pre @ take (9 + m) (every_second t (nine_then_eleven delays)))
     = (if \<exists>k < m. delays ! 8 < int k * second + delays ! (9 + k) - 9 * second
        then stopped_state app i (t + 9 * second + delays ! 8)
        else running_state app i (t + 9 * second + delays ! 8))"
proof -
  let ?H = "zip (take 9 delays) (replicate 9 True)"
  let ?M = "take m (zip (drop 9 delays) (replicate 11 False))"
  let ?hs = "every_second t ?H"
  let ?post = "every_second (t + 9 * second) ?M"
  have lh: "length ?H = 9" using len by simp
  have tk: "take (9 + m) (every_second t (nine_then_eleven delays)) = ?hs @ ?post"
    using len by (simp add: every_second_take nine_then_eleven_split every_second_append)
  have ne: "?hs \<noteq> []"
    using lh by (metis every_second_length length_0_conv zero_neq_numeral)
  have det: "\<forall>tk \<in> set ?hs. detected tk"
    by (rule every_second_detected) (auto simp: set_zip)
  have "\<forall>tk \<in> set ?post. snd tk = Inr False"
    by (rule every_second_missed) (auto simp: set_zip dest!: in_set_takeD)
  then have mis: "\<forall>tk \<in> set ?post. \<not> detected tk"
    by (simp add: detected_def)
  have "?H \<noteq> []" using lh by auto
  then have "fst (last ?hs) = t + int (length ?H) * second + fst (last ?H)"
    by (rule every_second_last)
  moreover have "last ?H = ?H ! (length ?H - 1)"
    using \<open>?H \<noteq> []\<close> by (rule last_conv_nth)
  then have "last ?H = ?H ! 8"
    unfolding lh by simp
  moreover have "?H ! 8 = (delays ! 8, True)"
    using len by simp
  ultimately have seen: "fst (last ?hs) = t + 9 * second + delays ! 8"
    unfolding lh by simp
  have ov: "(\<exists>tk \<in> set ?post. overdue (fst (last ?hs)) tk)
        = (\<exists>k < m. delays ! 8 < int k * second + delays ! (9 + k) - 9 * second)"
    unfolding seen misses_overdue [OF len m]
    by (simp add: stopThreshold_def algebra_simps)
  show ?thesis
    unfolding tk monitor_trace [OF pre ne det mis] seen ov [unfolded seen] ..
qed


text \<open>
  C9. With an application attached to receive the events, after any ticks that did
  not detect the process, whatever their clock readings:

  \<^item> for arbitrary clock readings, once the process has been detected at one or more
    ticks and then is not detected, the monitor has emitted exactly "running" and
    then "stopped" and has returned if the clock reading of some tick that found no
    process is more than ten seconds after the reading of the last detection;
    otherwise it has emitted exactly "running" and is still looping;

  \<^item> sampling once per second, every iteration reading the clock less than a second
    after its tick fired, on 9 consecutive detections followed by 11 samples without
    detection: the monitor has emitted exactly "running" and then "stopped" and has
    returned; before the first tick nothing is emitted; from the first detection up
    to the ninth sample without detection exactly "running" has been emitted and the
    monitor is still looping; at the tenth sample without detection it has returned
    exactly when that iteration read the clock with a larger delay than the last
    detection did.
\<close>

theorem monitor_debounce_trace:
  assumes pre: "\<forall>tk \<in> set pre. \<not> detected tk"
    and len: "length delays = 20"
    and dl: "\<forall>d \<in> set delays. 0 \<le> d \<and> d < second"
  shows "(\<forall>hs post. hs \<noteq> [] \<and> (\<forall>tk \<in> set hs. detected tk) \<and> (\<forall>tk \<in> set post. \<not> detected tk)
         \<longrightarrow> statuses (monitorGameProcess True i (pre @ hs @ post))
               = (if \<exists>tk \<in> set post. overdue (fst (last hs)) tk
                  then [LaunchStatusRunning, LaunchStatusStopped] else [LaunchStatusRunning])
             \<and> ms_returned (monitorGameProcess True i (pre @ hs @ post))
               = (\<exists>tk \<in> set post. overdue (fst (last hs)) tk))
   \<and> statuses (monitorGameProcess True i (pre @ every_second t (nine_then_eleven delays)))
           = [LaunchStatusRunning, LaunchStatusStopped]
   \<and> ms_returned (monitorGameProcess True i (pre @ every_second t (nine_then_eleven delays)))
   \<and> statuses (monitorGameProcess True i pre) = []
   \<and> (\<forall>n. 0 < n \<and> n \<le> 18 \<longrightarrow>
         statuses (monitorGameProcess True i
            (pre @ take n (every_second t (nine_then_eleven delays)))) = [LaunchStatusRunning]
         \<and> \<not> ms_returned (monitorGameProcess True i
            (pre @ take n (every_second t (nine_then_eleven delays)))))
   \<and> ms_returned (monitorGameProcess True i
         (pre @ take 19 (every_second t (nine_then_eleven delays))))
       = (delays ! 8 < delays ! 18)"
proof -
  have bound: "0 \<le> delays ! j \<and> delays ! j < second" if "j < 20" for j
    using dl len that by (metis nth_mem)
  have early: "\<not> (\<exists>k < m. delays ! 8 < int k * second + delays ! (9 + k) - 9 * second)"
    if "m \<le> 9" for m
  proof
    assume "\<exists>k < m. delays ! 8 < int k * second + delays ! (9 + k) - 9 * second"
    then obtain k where k: "k < m"
      and lt: "delays ! 8 < int k * second + delays ! (9 + k) - 9 * second"
      by blast
    from k that have "int k * second \<le> 8 * second"
      by (simp add: second_def)
    moreover from k that have "delays ! (9 + k) < second"
      using bound [of "9 + k"] by simp
    moreover have "0 \<le> delays ! 8"
      using bound [of 8] by simp
    ultimately show False using lt by simp
  qed
  have tenth: "(\<exists>k < 10. delays ! 8 < int k * second + delays ! (9 + k) - 9 * second)
                 = (delays ! 8 < delays ! 18)"
  proof
    assume "\<exists>k < 10. delays ! 8 < int k * second + delays ! (9 + k) - 9 * second"
    then obtain k where k: "k < 10"
      and lt: "delays ! 8 < int k * second + delays ! (9 + k) - 9 * second"
      by blast
    have "k = 9"
    proof (rule ccontr)
      assume "k \<noteq> 9"
      with k have "k < 9" by simp
      with lt early [of 9] show False by blast
    qed
    with lt show "delays ! 8 < delays ! 18" by simp
  next
    assume "delays ! 8 < delays ! 18"
    then have "delays ! 8 < int 9 * second + delays ! (9 + 9) - 9 * second" by simp
    moreover have "(9::nat) < 10" by simp
    ultimately show "\<exists>k < 10. delays ! 8 < int k * second + delays ! (9 + k) - 9 * second"
      by blast
  qed
  have eleventh: "\<exists>k < 11. delays ! 8 < int k * second + delays ! (9 + k) - 9 * second"
  proof -
    have "delays ! 8 < second" and "0 \<le> delays ! 19"
      using bound [of 8] bound [of 19] by simp_all
    then have "delays ! 8 < int 10 * second + delays ! (9 + 10) - 9 * second"
      by simp
    moreover have "(10::nat) < 11" by simp
    ultimately show ?thesis by blast
  qed
  have full: "take (9 + 11) (every_second t (nine_then_eleven delays))
                = every_second t (nine_then_eleven delays)"
    using len by (simp add: nine_then_eleven_def)
  have c1: "monitorGameProcess True i (pre @ every_second t (nine_then_eleven delays))
              = stopped_state True i (t + 9 * second + delays ! 8)"
    using after_detection [OF pre len, of 11 True i t] eleventh unfolding full by simp
  have c3: "monitorGameProcess True i pre = monitor_init"
    using pre by (simp add: monitorGameProcess_def idle_ticks)
  have c4: "statuses (monitorGameProcess True i
              (pre @ take n (every_second t (nine_then_eleven delays)))) = [LaunchStatusRunning]
            \<and> \<not> ms_returned (monitorGameProcess True i
              (pre @ take n (every_second t (nine_then_eleven delays))))"
    if n: "0 < n" "n \<le> 18" for n
  proof (cases "n \<le> 9")
    case True
    with during_detection [OF pre len n(1), of True i t] show ?thesis by auto
  next
    case False
    define m where "m = n - 9"
    with False n have m: "n = 9 + m" "m \<le> 9"
      by simp_all
    then have "m \<le> 11" by simp
    from after_detection [OF pre len this, of True i t] early [OF m(2)] show ?thesis
      unfolding m(1) by simp
  qed
  have c5: "ms_returned (monitorGameProcess True i
              (pre @ take 19 (every_second t (nine_then_eleven delays))))
            = (delays ! 8 < delays ! 18)"
  proof -
    have "(19::nat) = 9 + 10" by simp
    moreover have "(10::nat) \<le> 11" by simp
    ultimately show ?thesis
      using after_detection [OF pre len \<open>10 \<le> 11\<close>, of True i t] tenth
      by (simp del: One_nat_def)
  qed
  have c0: "statuses (monitorGameProcess True i (pre @ hs @ post))
               = (if \<exists>tk \<in> set post. overdue (fst (last hs)) tk
                  then [LaunchStatusRunning, LaunchStatusStopped] else [LaunchStatusRunning])
            \<and> ms_returned (monitorGameProcess True i (pre @ hs @ post))
               = (\<exists>tk \<in> set post. overdue (fst (last hs)) tk)"
    if "hs \<noteq> []" "\<forall>tk \<in> set hs. detected tk" "\<forall>tk \<in> set post. \<not> detected tk" for hs post
    unfolding monitor_trace [OF pre that] by simp
  have c2: "statuses (monitorGameProcess True i (pre @ every_second t (nine_then_eleven delays)))
              = [LaunchStatusRunning, LaunchStatusStopped]
            \<and> ms_returned (monitorGameProcess True i
                 (pre @ every_second t (nine_then_eleven delays)))"
    unfolding c1 by simp
  have c3': "statuses (monitorGameProcess True i pre) = []"
    unfolding c3 by (simp add: statuses_def monitor_init_def)
  from c0 c2 c3' c4 c5 show ?thesis
    by blast
qed

theorem monitor_debounce_trace_witness:
  "statuses (monitorGameProcess True rom_instance
       (idle_trace @ every_second 0 (nine_then_eleven jitter)))
     = [LaunchStatusRunning, LaunchStatusStopped]
   \<and> ms_returned (monitorGameProcess True rom_instance
       (idle_trace @ every_second 0 (nine_then_eleven jitter)))
   \<and> statuses (monitorGameProcess True rom_instance
       (idle_trace @ take 18 (every_second 0 (nine_then_eleven jitter))))
     = [LaunchStatusRunning]
   \<and> ms_returned (monitorGameProcess True rom_instance
       (idle_trace @ take 19 (every_second 0 (nine_then_eleven jitter))))
   \<and> statuses (monitorGameProcess True rom_instance
       (idle_trace @ [(50, Inr True), (70, Inr True)] @ [(10000000070, Inr False)]))
     = [LaunchStatusRunning]
   \<and> statuses (monitorGameProcess True rom_instance
       (idle_trace @ [(50, Inr True), (70, Inr True)] @ [(10000000071, Inr False)]))
     = [LaunchStatusRunning, LaunchStatusStopped]"
proof -
  have h1: "\<forall>tk \<in> set idle_trace. \<not> detected tk"
    by code_simp
  have h2: "length jitter = 20"
    by code_simp
  have h3: "\<forall>d \<in> set jitter. 0 \<le> d \<and> d < second"
    by code_simp
  have h4: "jitter ! 8 < jitter ! 18"
    by code_simp
  have h5: "[(50, Inr True), (70, Inr True)] \<noteq> ([] :: tick list)
            \<and> (\<forall>tk \<in> set [(50, Inr True), (70, Inr True)]. detected tk)
            \<and> (\<forall>tk \<in> set [(10000000070, Inr False)]. \<not> detected tk)"
    by code_simp
  have h6: "[(50, Inr True), (70, Inr True)] \<noteq> ([] :: tick list)
            \<and> (\<forall>tk \<in> set [(50, Inr True), (70, Inr True)]. detected tk)
            \<and> (\<forall>tk \<in> set [(10000000071, Inr False)]. \<not> detected tk)"
    by code_simp
  have h7: "\<not> (\<exists>tk \<in> set [(10000000070, Inr False)].
                 overdue (fst (last [(50, Inr True), (70, Inr True)])) tk)"
    by code_simp
  have h8: "\<exists>tk \<in> set [(10000000071, Inr False)].
                 overdue (fst (last [(50, Inr True), (70, Inr True)])) tk"
    by code_simp
  have n18: "0 < (18::nat) \<and> (18::nat) \<le> 18"
    by simp
  note t = monitor_debounce_trace [OF h1 h2 h3, of rom_instance 0]
  note general = t [THEN conjunct1, rule_format]
  note sampled = t [THEN conjunct2]
  have "statuses (monitorGameProcess True rom_instance
          (idle_trace @ [(50, Inr True), (70, Inr True)] @ [(10000000070, Inr False)]))
        = [LaunchStatusRunning]"
    using general [OF h5, THEN conjunct1] h7 by simp
  moreover have "statuses (monitorGameProcess True rom_instance
          (idle_trace @ [(50, Inr True), (70, Inr True)] @ [(10000000071, Inr False)]))
        = [LaunchStatusRunning, LaunchStatusStopped]"
    using general [OF h6, THEN conjunct1] h8 by simp
  moreover have "statuses (monitorGameProcess True rom_instance
          (idle_trace @ take 18 (every_second 0 (nine_then_eleven jitter))))
        = [LaunchStatusRunning]"
    using sampled n18 by blast
  moreover have "ms_returned (monitorGameProcess True rom_instance
          (idle_trace @ take 19 (every_second 0 (nine_then_eleven jitter))))"
    using sampled h4 by blast
  ultimately show ?thesis
    using sampled by blast
qed


section \<open>Properties of the resolver chain\<close>

lemma chain_indices:
  "EvResolve j \<in> set (resolver_chain done cb req k tried rs) \<Longrightarrow> k \<le> j \<and> j < k + length rs"
proof (induction rs arbitrary: k tried)
  case Nil
  then show ?case by simp
next
  case (Cons r rs)
  show ?case
  proof (cases "try_resolver (done k) r req")
    case Cancelled
    with Cons.prems show ?thesis by simp
  next
    case Unsupported
    with Cons.prems have "EvResolve j \<in> set (resolver_chain done cb req (Suc k) tried rs)"
      by simp
    from Cons.IH [OF this] show ?thesis by simp
  next
    case (Failed err)
    with Cons.prems have "j = k \<or> EvResolve j \<in> set (resolver_chain done cb req (Suc k) (tried @ [res_Name r]) rs)"
      by simp
    then show ?thesis using Cons.IH by fastforce
  next
    case (Succeeded m)
    with Cons.prems show ?thesis by (simp split: option.splits)
  qed
qed

lemma chain_short_circuit:
  assumes "EvResolve (k + i) \<in> set (resolver_chain done cb req k tried rs)"
    and "i < length rs"
    and "res_Resolve (rs ! i) req = Inr md"
  shows "\<exists>pre. resolver_chain done cb req k tried rs
            = pre @ EvResolve (k + i) # delivery cb req md (res_Name (rs ! i))
          \<and> list_all (before (k + i)) pre"
  using assms
proof (induction rs arbitrary: k i tried)
  case Nil
  then show ?case by simp
next
  case (Cons r rs)
  show ?case
  proof (cases i)
    case 0
    with Cons.prems have "resolver_chain done cb req k tried (r # rs)
        = [] @ EvResolve (k + i) # delivery cb req md (res_Name ((r # rs) ! i))"
      by (auto simp: try_resolver_def delivery_def split: if_splits dest: chain_indices)
    moreover have "list_all (before (k + i)) []" by simp
    ultimately show ?thesis using 0 by (metis nth_Cons_0)
  next
    case (Suc i')
    with Cons.prems have i': "i' < length rs" "res_Resolve (rs ! i') req = Inr md" by auto
    show ?thesis
    proof (cases "try_resolver (done k) r req")
      case Cancelled
      with Cons.prems show ?thesis by auto
    next
      case Unsupported
      with Cons.prems Suc
      have "EvResolve (Suc k + i') \<in> set (resolver_chain done cb req (Suc k) tried rs)"
        by auto
      from Cons.IH [OF this i'] obtain pre where
        pre: "resolver_chain done cb req (Suc k) tried rs
                = pre @ EvResolve (Suc k + i') # delivery cb req md (res_Name (rs ! i'))"
          "list_all (before (Suc k + i')) pre" by blast
      have "resolver_chain done cb req k tried (r # rs)
          = (EvUnsupported k # pre) @ EvResolve (k + i) # delivery cb req md (res_Name ((r # rs) ! i))"
        using Unsupported pre(1) Suc by simp
      moreover have "list_all (before (k + i)) (EvUnsupported k # pre)"
        using pre(2) Suc by (simp add: before_def)
      ultimately show ?thesis by blast
    next
      case (Failed err)
      with Cons.prems Suc
      have "EvResolve (Suc k + i') \<in> set (resolver_chain done cb req (Suc k) (tried @ [res_Name r]) rs)"
        by auto
      from Cons.IH [OF this i'] obtain pre where
        pre: "resolver_chain done cb req (Suc k) (tried @ [res_Name r]) rs
                = pre @ EvResolve (Suc k + i') # delivery cb req md (res_Name (rs ! i'))"
          "list_all (before (Suc k + i')) pre" by blast
      have "resolver_chain done cb req k tried (r # rs)
          = (EvResolve k # pre) @ EvResolve (k + i) # delivery cb req md (res_Name ((r # rs) ! i))"
        using Failed pre(1) Suc by simp
      moreover have "list_all (before (k + i)) (EvResolve k # pre)"
        using pre(2) Suc by (simp add: before_def)
      ultimately show ?thesis by blast
    next
      case (Succeeded m)
      with Cons.prems Suc show ?thesis by (auto split: option.splits)
    qed
  qed
qed

text \<open>
  When no cancellation is observed up to resolver \<open>i\<close>, every earlier resolver that
  supports the request fails and resolver \<open>i\<close> supports it, the chain calls
  \<open>Resolve\<close> on resolver \<open>i\<close>.
\<close>

lemma chain_reaches:
  assumes "i < length rs"
    and "\<forall>j \<le> i. \<not> done (k + j)"
    and "\<forall>j < i. res_Supports (rs ! j) (fr_Source req) (fr_Platform req) \<longrightarrow> (\<exists>err. res_Resolve (rs ! j) req = Inl err)"
    and "res_Supports (rs ! i) (fr_Source req) (fr_Platform req)"
  shows "EvResolve (k + i) \<in> set (resolver_chain done cb req k tried rs)"
  using assms
proof (induction rs arbitrary: k i tried)
  case Nil
  then show ?case by simp
next
  case (Cons r rs)
  show ?case
  proof (cases i)
    case 0
    with Cons.prems show ?thesis
      by (auto simp: try_resolver_def split: sum.splits)
  next
    case (Suc i')
    have nd: "\<not> done k" using Cons.prems(2) by (metis add.right_neutral le0)
    have a: "i' < length rs" using Cons.prems Suc by simp
    have b: "\<forall>j \<le> i'. \<not> done (Suc k + j)"
      using Cons.prems(2) Suc by (metis Suc_le_mono add_Suc_right add_Suc)
    have c: "\<forall>j < i'. res_Supports (rs ! j) (fr_Source req) (fr_Platform req) \<longrightarrow> (\<exists>err. res_Resolve (rs ! j) req = Inl err)"
      using Cons.prems(3) Suc by (metis Suc_less_eq nth_Cons_Suc)
    have d: "res_Supports (rs ! i') (fr_Source req) (fr_Platform req)"
      using Cons.prems(4) Suc by simp
    have hd: "res_Supports r (fr_Source req) (fr_Platform req) \<longrightarrow> (\<exists>err. res_Resolve r req = Inl err)"
      using Cons.prems(3) Suc by (metis nth_Cons_0 zero_less_Suc)
    note ih = Cons.IH [OF a b c d]
    show ?thesis
    proof (cases "res_Supports r (fr_Source req) (fr_Platform req)")
      case True
      then obtain err where "res_Resolve r req = Inl err" using hd by blast
      then show ?thesis using True nd ih [of "tried @ [res_Name r]"] Suc
        by (simp add: try_resolver_def)
    next
      case False
      then show ?thesis using nd ih [of tried] Suc
        by (simp add: try_resolver_def)
    qed
  qed
qed

text \<open>
  C2. Take any fetcher with a callback installed, any request and any cancellation
  behaviour. If the resolver registered at position \<open>i\<close> supports the request's
  source and platform and its \<open>Resolve\<close> call, made by the chain, succeeds, then the
  run of the chain ends with that call followed by the callback on its result: what
  precedes are gate skips and \<open>Resolve\<close> calls of resolvers registered before \<open>i\<close>,
  and \<open>Resolve\<close> is never called on a resolver registered after \<open>i\<close>.
\<close>

theorem first_success_ends_chain:
  assumes "i < length (f_resolvers f)"
    and "res_Supports (f_resolvers f ! i) (fr_Source req) (fr_Platform req)"
    and "res_Resolve (f_resolvers f ! i) req = Inr resolved"
    and "EvResolve i \<in> set (fst (processRequest f done req))"
    and "f_onResolve f = Some ()"
  shows "(\<exists>pre. fst (processRequest f done req)
              = pre @ [EvResolve i, EvCallback req resolved (res_Name (f_resolvers f ! i))]
            \<and> list_all (before i) pre)
       \<and> (\<forall>j > i. EvResolve j \<notin> set (fst (processRequest f done req)))"
proof -
  let ?t = "fst (processRequest f done req)"
  have t: "?t = resolver_chain done (f_onResolve f) req 0 [] (f_resolvers f)"
    by (simp add: processRequest_def register_cancel_def)
  from assms(4)
  have "EvResolve (0 + i) \<in> set (resolver_chain done (f_onResolve f) req 0 [] (f_resolvers f))"
    by (simp add: t)
  from chain_short_circuit [OF this assms(1) assms(3)] obtain pre where
    pre: "?t = pre @ EvResolve i # delivery (f_onResolve f) req resolved (res_Name (f_resolvers f ! i))"
      "list_all (before i) pre"
    by (auto simp: t)
  then have eq: "?t = pre @ [EvResolve i, EvCallback req resolved (res_Name (f_resolvers f ! i))]"
    using assms(5) by (simp add: delivery_def)
  have "\<forall>j > i. EvResolve j \<notin> set ?t"
  proof (intro allI impI notI)
    fix j assume j: "i < j" "EvResolve j \<in> set ?t"
    then have "EvResolve j \<in> set pre" by (auto simp: eq)
    then have "before i (EvResolve j)" using pre(2) by (simp add: list_all_iff)
    then show False using j(1) by (simp add: before_def)
  qed
  with eq pre(2) show ?thesis by blast
qed

text \<open>
  The third of four resolvers is the first to succeed: the fourth, which would
  succeed too, is never called.
\<close>

theorem first_success_ends_chain_witness:
  "fst (processRequest chain_fetcher (\<lambda>i. False) zelda_request)
     = [EvUnsupported 0, EvResolve 1, EvResolve 2,
        EvCallback zelda_request (name_only zelda_request) ''catalog'']
   \<and> EvResolve 3 \<notin> set (fst (processRequest chain_fetcher (\<lambda>i. False) zelda_request))"
proof -
  have rs: "f_resolvers chain_fetcher = [steam_only, offline, catalog, mirror]"
    by (simp add: chain_fetcher_def)
  have h1: "2 < length (f_resolvers chain_fetcher)" by (simp add: rs)
  have h2: "res_Supports (f_resolvers chain_fetcher ! 2)
              (fr_Source zelda_request) (fr_Platform zelda_request)"
    by (simp add: rs catalog_def zelda_request_def)
  have h3: "res_Resolve (f_resolvers chain_fetcher ! 2) zelda_request
              = Inr (name_only zelda_request)"
    by (simp add: rs catalog_def)
  have t: "fst (processRequest chain_fetcher (\<lambda>i. False) zelda_request)
     = [EvUnsupported 0, EvResolve 1, EvResolve 2,
        EvCallback zelda_request (name_only zelda_request) ''catalog'']"
    by (simp add: processRequest_def register_cancel_def chain_fetcher_def started_fetcher_def
        try_resolver_def steam_only_def offline_def catalog_def mirror_def zelda_request_def)
  have h4: "EvResolve 2 \<in> set (fst (processRequest chain_fetcher (\<lambda>i. False) zelda_request))"
    by (simp add: t)
  have h5: "f_onResolve chain_fetcher = Some ()" by (simp add: chain_fetcher_def)
  from first_success_ends_chain [OF h1 h2 h3 h4 h5]
  have "EvResolve 3 \<notin> set (fst (processRequest chain_fetcher (\<lambda>i. False) zelda_request))"
    by simp
  with t show ?thesis by simp
qed


section \<open>Properties of the fetcher's API\<close>

lemma api_step_phase:
  assumes "in_phase f p" and "api_step f c = Inr f'"
  shows "in_phase f' (phase_step p c)"
proof (cases c)
  case CallStart
  with assms show ?thesis
    by (cases p) (auto simp: api_step_def in_phase_def phase_step_def Start_def)
next
  case CallStop
  with assms show ?thesis
    by (cases p)
       (auto simp: api_step_def in_phase_def phase_step_def Stop_def stop_locked_def Let_def
             split: if_splits)
next
  case (CallQueue b req)
  with assms show ?thesis
    by (cases p)
       (auto simp: api_step_def in_phase_def phase_step_def Queue_def queueCapacity_def
             split: if_splits sum.splits)
next
  case (CallCancel k)
  with assms show ?thesis
    by (cases p)
       (auto simp: api_step_def in_phase_def phase_step_def Cancel_def split: option.splits)
qed

lemma api_run_phase:
  "in_phase f p \<Longrightarrow> api_run f cs = Inr f' \<Longrightarrow> in_phase f' (foldl phase_step p cs)"
proof (induction cs arbitrary: f p)
  case Nil
  then show ?case by simp
next
  case (Cons c cs)
  then obtain f1 where f1: "api_step f c = Inr f1" "api_run f1 cs = Inr f'"
    by (auto split: sum.splits)
  from api_step_phase [OF Cons.prems(1) f1(1)] have "in_phase f1 (phase_step p c)" .
  from Cons.IH [OF this f1(2)] show ?case by simp
qed

lemma NewFetcher_phase: "in_phase (NewFetcher n) Fresh"
  by (simp add: in_phase_def NewFetcher_def)

text \<open>
  C5, as the code has it. After any history of calls on a new fetcher that did not
  panic: \<open>Queue\<close> returns the not-running error exactly when the fetcher was never
  started or has been stopped and not started again. On a fetcher started for the
  first time and not stopped since, the buffer never holds more than 100 requests;
  \<open>Queue\<close> returns the queue-full error when the buffer holds 100 and no worker
  takes one within the wait, and otherwise puts the request at the end of the buffer
  and returns no error.
\<close>

theorem queue_outcomes:
  assumes "api_run (NewFetcher n) cs = Inr f"
  shows "((\<exists>f'. Queue f slotFreed req = Inr (Some ''fetcher is not running'', f'))
            \<longleftrightarrow> lifecycle cs = Fresh \<or> lifecycle cs = Stopped)
     \<and> (lifecycle cs = Started \<longrightarrow>
          length (f_queue f) \<le> queueCapacity
          \<and> (length (f_queue f) = queueCapacity \<and> \<not> slotFreed
               \<longrightarrow> Queue f slotFreed req = Inr (Some ''queue is full'', f))
          \<and> (length (f_queue f) < queueCapacity \<or> slotFreed
               \<longrightarrow> (\<exists>q. Queue f slotFreed req = Inr (None, f\<lparr>f_queue := q @ [req]\<rparr>)
                       \<and> length (q @ [req]) \<le> queueCapacity
                       \<and> (q = f_queue f \<or> q = tl (f_queue f)))))"
proof -
  have p: "in_phase f (lifecycle cs)"
    unfolding lifecycle_def using NewFetcher_phase assms by (rule api_run_phase)
  show ?thesis
  proof (cases "lifecycle cs")
    case Fresh
    with p show ?thesis by (auto simp: in_phase_def Queue_def)
  next
    case Started
    with p show ?thesis by (auto simp: in_phase_def Queue_def queueCapacity_def)
  next
    case Stopped
    with p show ?thesis by (auto simp: in_phase_def Queue_def)
  next
    case Restarted
    with p show ?thesis by (auto simp: in_phase_def Queue_def)
  qed
qed

theorem queue_outcomes_witness:
  "api_run (NewFetcher 2) [CallStart] = Inr started_fetcher
   \<and> lifecycle [CallStart] = Started
   \<and> Queue started_fetcher False zelda_request
       = Inr (None, started_fetcher\<lparr>f_queue := [zelda_request]\<rparr>)"
proof -
  have h: "api_run (NewFetcher 2) [CallStart] = Inr started_fetcher"
    by (simp add: api_step_def NewFetcher_def Start_def started_fetcher_def)
  have l: "lifecycle [CallStart] = Started"
    by (simp add: lifecycle_def phase_step_def)
  have q: "f_queue started_fetcher = []" by (simp add: started_fetcher_def)
  from queue_outcomes [OF h, of False zelda_request] l q h show ?thesis
    by (auto simp: queueCapacity_def)
qed

text \<open>
  C5 as stated fails on a fetcher that is started again after \<open>Stop\<close>: its flag says
  running, its queue is the closed channel of the first run, and \<open>Queue\<close> neither
  returns an error nor accepts the request: the send panics.
\<close>

theorem queue_after_restart_counterexample:
  "api_run (NewFetcher 2) [CallStart, CallStop, CallStart] = Inr restarted_fetcher
   \<and> f_isRunning restarted_fetcher
   \<and> Queue restarted_fetcher False zelda_request = Inl ''send on closed channel''"
  by (simp add: api_step_def NewFetcher_def Start_def Stop_def stop_locked_def Let_def Queue_def
        restarted_fetcher_def stopped_fetcher_def started_fetcher_def)

text \<open>
  C8. Once a call of \<open>Stop\<close> has returned, a second call returns the fetcher as it
  found it: it takes the early return on the running flag, so it closes nothing,
  cannot panic and changes no field.
\<close>

theorem stop_idempotent:
  assumes "Stop f = Inr f'"
  shows "Stop f' = Inr f' \<and> \<not> f_isRunning f'"
proof -
  have off: "\<not> f_isRunning f'"
  proof (cases "f_isRunning f")
    case True
    then have "f' = (stop_locked f)\<lparr>f_queueClosed := True, f_queue := [], f_wg := 0\<rparr>"
      using assms by (simp add: Stop_def Let_def split: if_splits)
    then show ?thesis by (simp add: stop_locked_def)
  next
    case False
    then have "f' = f" using assms by (simp add: Stop_def)
    with False show ?thesis by simp
  qed
  then have "Stop f' = Inr f'" by (simp add: Stop_def)
  with off show ?thesis by simp
qed

theorem stop_idempotent_witness:
  "Stop started_fetcher = Inr stopped_fetcher
   \<and> Stop stopped_fetcher = Inr stopped_fetcher
   \<and> \<not> f_isRunning stopped_fetcher"
proof -
  have h: "Stop started_fetcher = Inr stopped_fetcher"
    by (simp add: Stop_def stop_locked_def started_fetcher_def stopped_fetcher_def Let_def)
  from stop_idempotent [OF h] h show ?thesis by simp
qed


section \<open>Properties of the cancellation registry\<close>





















































end
